theory Spec2Isabelle
  imports Main
begin

section \<open>Pull sources\<close>

text \<open>
  The engine wraps a JavaScript iterator: an object whose \<open>next()\<close> returns a result
  \<open>{value, done}\<close>. A result is modelled by \<open>IterResult value done\<close>, where the value
  \<open>undefined\<close> is \<open>None\<close>. An iterator is modelled by its state \<open>'s\<close> together with the
  function \<open>pull :: 's \<Rightarrow> 'a iter_result \<times> 's\<close> that its \<open>next()\<close> method computes: the
  result and the iterator's state after the call. Every operation of the engine takes the
  \<open>pull\<close> of the iterator it wraps as its first argument. Iterators and the callbacks
  passed to the engine are taken to return: they neither throw nor run forever.
\<close>

datatype 'a iter_result = IterResult (rvalue: "'a option") (rdone: bool)

text \<open>
  A scripted iterator returns the listed results in order and \<open>{value: undefined, done: true}\<close>
  from then on. Scripts cover array iterators and generators, and also iterators that
  report \<open>done\<close> with a value or that resume after reporting \<open>done\<close>.
\<close>

fun script_pull :: "'a iter_result list \<Rightarrow> 'a iter_result \<times> 'a iter_result list" where
  "script_pull [] = (IterResult None True, [])"
| "script_pull (r # rs) = (r, rs)"

text \<open>
  Modelled from the spec: the sequence adapter \<open>toIter\<close> (helpers/toIter.js is not among the
  sources) applied to an array. The iterator of an array yields each element with
  \<open>done: false\<close> and then reports \<open>{value: undefined, done: true}\<close>; an element may itself be
  \<open>undefined\<close>.
\<close>

definition of_array :: "'a option list \<Rightarrow> 'a iter_result list" where
  "of_array xs = map (\<lambda>x. IterResult x False) xs"

section \<open>The class Iter\<close>

text \<open>The private fields \<open>#iter\<close>, \<open>#done\<close>, \<open>#consumed\<close> and \<open>#fused\<close>.\<close>

record fused_state =
  called :: bool
  dead :: bool

record 's Iter =
  iter :: 's
  done_flag :: bool
  consumed :: bool
  fused :: fused_state

text \<open>The constructor.\<close>

definition new_Iter :: "'s \<Rightarrow> 's Iter" where
  "new_Iter i =
     \<lparr>iter = i, done_flag = False, consumed = False, fused = \<lparr>called = False, dead = False\<rparr>\<rparr>"

text \<open>
  The exceptions the class throws: \<open>ReferenceError\<close> on use of a consumed engine (the
  specification's ConsumedError) and \<open>TypeError\<close> on a malformed argument (the
  specification's InvalidArgument).
\<close>

datatype error = ReferenceError | TypeError

text \<open>
  \<open>next()\<close>. A call returns an outcome (the exception thrown, or the value returned, where
  \<open>None\<close> is \<open>undefined\<close>, the engine's "end") and the engine after the call.
  \<open>next_unguarded\<close> is the body of \<open>next()\<close> below its first line, the test of \<open>#consumed\<close>:
  what a call does on an engine that is not consumed.
\<close>

definition next_unguarded ::
  "('s \<Rightarrow> 'a iter_result \<times> 's) \<Rightarrow> 's Iter \<Rightarrow> 'a option \<times> 's Iter" where
  "next_unguarded pull e =
     (if dead (fused e) then (None, e)
      else
        let (r, s) = pull (iter e);
            e1 = e\<lparr>iter := s, done_flag := rdone r\<rparr>;
            e2 = (if called (fused e1) \<and> rvalue r = None
                  then e1\<lparr>fused := (fused e1)\<lparr>dead := True\<rparr>\<rparr> else e1)
        in (if \<not> rdone r then rvalue r else None, e2))"

definition iter_next ::
  "('s \<Rightarrow> 'a iter_result \<times> 's) \<Rightarrow> 's Iter \<Rightarrow> (error + 'a option) \<times> 's Iter" where
  "iter_next pull e =
     (if consumed e then (Inl ReferenceError, e)
      else let (item, e1) = next_unguarded pull e in (Inr item, e1))"

text \<open>\<open>fuse()\<close> sets \<open>#fused.called\<close> and returns the same engine.\<close>

definition iter_fuse :: "'s Iter \<Rightarrow> 's Iter" where
  "iter_fuse e = e\<lparr>fused := (fused e)\<lparr>called := True\<rparr>\<rparr>"

subsection \<open>peek\<close>

text \<open>
  \<open>peek()\<close> pulls one result \<open>peeked\<close> from the iterator and replaces \<open>#iter\<close> by a generator
  closed over \<open>peeked\<close> and the old iterator \<open>source\<close>. The generator's suspended frame is
  the record \<open>peek_gen\<close>: the captured \<open>peeked\<close> and \<open>source\<close>, the local \<open>item\<close> (\<open>None\<close>
  while it is still \<open>undefined\<close>) and the point where the generator stands.
\<close>

datatype peek_pc = PeekStart | PeekYieldedPeeked | PeekYieldedItem | PeekReturned

record ('a, 's) peek_gen =
  pk_peeked :: "'a iter_result"
  pk_source :: 's
  pk_item :: "'a iter_result option"
  pk_pc :: peek_pc

text \<open>
  The loop \<open>while (!item?.done) yield (item = source.next()).value\<close>, entered from either
  yield: it yields the value of every result it pulls, the one with \<open>done: true\<close> included,
  and returns at the test after that.
\<close>

definition peek_gen_loop ::
  "('s \<Rightarrow> 'a iter_result \<times> 's) \<Rightarrow> ('a, 's) peek_gen \<Rightarrow> 'a iter_result \<times> ('a, 's) peek_gen" where
  "peek_gen_loop pull g =
     (if (case pk_item g of None \<Rightarrow> True | Some it \<Rightarrow> \<not> rdone it)
      then
        let (r, s) = pull (pk_source g)
        in (IterResult (rvalue r) False,
            g\<lparr>pk_source := s, pk_item := Some r, pk_pc := PeekYieldedItem\<rparr>)
      else (IterResult None True, g\<lparr>pk_pc := PeekReturned\<rparr>))"

text \<open>The generator's \<open>next()\<close>.\<close>

definition peek_gen_pull ::
  "('s \<Rightarrow> 'a iter_result \<times> 's) \<Rightarrow> ('a, 's) peek_gen \<Rightarrow> 'a iter_result \<times> ('a, 's) peek_gen" where
  "peek_gen_pull pull g =
     (case pk_pc g of
        PeekStart \<Rightarrow>
          if rdone (pk_peeked g) then (IterResult None True, g\<lparr>pk_pc := PeekReturned\<rparr>)
          else (IterResult (rvalue (pk_peeked g)) False, g\<lparr>pk_pc := PeekYieldedPeeked\<rparr>)
      | PeekYieldedPeeked \<Rightarrow> peek_gen_loop pull g
      | PeekYieldedItem \<Rightarrow> peek_gen_loop pull g
      | PeekReturned \<Rightarrow> (IterResult None True, g))"

text \<open>
  \<open>peek()\<close> itself: it tests neither \<open>#consumed\<close> nor \<open>#fused.dead\<close>, never throws, and
  leaves the flags as they are. The engine it leaves wraps the generator.
\<close>

definition iter_peek ::
  "('s \<Rightarrow> 'a iter_result \<times> 's) \<Rightarrow> 's Iter \<Rightarrow> 'a option \<times> ('a, 's) peek_gen Iter" where
  "iter_peek pull e =
     (let (peeked, source) = pull (iter e)
      in (if rdone peeked then None else rvalue peeked,
          \<lparr>iter = \<lparr>pk_peeked = peeked, pk_source = source, pk_item = None, pk_pc = PeekStart\<rparr>,
           done_flag = done_flag e, consumed = consumed e, fused = fused e\<rparr>))"

subsection \<open>Runs of calls\<close>

text \<open>
  A caller that calls \<open>next()\<close> \<open>n\<close> times in a row, catching what each call throws: the
  outcomes in order and the engine at the end.
\<close>

fun next_calls ::
  "('s \<Rightarrow> 'a iter_result \<times> 's) \<Rightarrow> nat \<Rightarrow> 's Iter \<Rightarrow> (error + 'a option) list \<times> 's Iter" where
  "next_calls pull 0 e = ([], e)"
| "next_calls pull (Suc n) e =
     (let (r, e1) = iter_next pull e; (rs, e2) = next_calls pull n e1 in (r # rs, e2))"

text \<open>The first \<open>n\<close> results an iterator returns.\<close>

fun pulls :: "('s \<Rightarrow> 'a iter_result \<times> 's) \<Rightarrow> nat \<Rightarrow> 's \<Rightarrow> 'a iter_result list" where
  "pulls pull 0 s = []"
| "pulls pull (Suc n) s = (let (r, s1) = pull s in r # pulls pull n s1)"

text \<open>
  \<open>next()\<close> returns "end" for a result that is \<open>done\<close> or whose value is \<open>undefined\<close>.
\<close>

definition yields_end :: "'a iter_result \<Rightarrow> bool" where
  "yields_end r = (rdone r \<or> rvalue r = None)"

text \<open>
  A run of results settles when its first \<open>done\<close> result carries no value and every
  result after it yields "end": what array iterators and generators without a return
  value do.
\<close>

fun settles :: "'a iter_result list \<Rightarrow> bool" where
  "settles [] = True"
| "settles (r # rs) =
     (if rdone r then rvalue r = None \<and> list_all yields_end rs else settles rs)"

text \<open>The proof of the peek property follows the generator through its frame. It is
  \<open>running\<close> while it stands at a yield with no \<open>done\<close> result in \<open>item\<close>, and \<open>finishing\<close>
  once it has yielded a \<open>done\<close> result or returned.\<close>

definition peek_running :: "('a, 's) peek_gen \<Rightarrow> bool" where
  "peek_running g =
     ((pk_pc g = PeekYieldedPeeked \<or> pk_pc g = PeekYieldedItem) \<and>
      (case pk_item g of None \<Rightarrow> True | Some it \<Rightarrow> \<not> rdone it))"

definition peek_finishing :: "('a, 's) peek_gen \<Rightarrow> bool" where
  "peek_finishing g =
     (pk_pc g = PeekReturned \<or>
      (pk_pc g = PeekYieldedItem \<and> (case pk_item g of None \<Rightarrow> False | Some it \<Rightarrow> rdone it)))"

section \<open>Stepping operations\<close>

text \<open>
  The numeric arguments \<open>n\<close> are integers: the type leaves out the numbers that are not
  integers, which the guard \<open>n < 0 || !Number.isInteger(n)\<close> rejects with the same
  \<open>TypeError\<close> as the negative ones.
\<close>

text \<open>
  \<open>advance_by(n)\<close>: \<open>for (let i = 0; i < n; i++, this.next()) if (this.#done) return i;\<close>
  and \<open>undefined\<close> (here \<open>None\<close>) after the loop. The loop function takes \<open>n - i\<close>, the
  iterations left, and \<open>i\<close>.
\<close>

fun advance_by_loop ::
  "('s \<Rightarrow> 'a iter_result \<times> 's) \<Rightarrow> nat \<Rightarrow> nat \<Rightarrow> 's Iter \<Rightarrow> (error + nat option) \<times> 's Iter" where
  "advance_by_loop pull 0 i e = (Inr None, e)"
| "advance_by_loop pull (Suc k) i e =
     (if done_flag e then (Inr (Some i), e)
      else
        (case iter_next pull e of
           (Inl err, e1) \<Rightarrow> (Inl err, e1)
         | (Inr item, e1) \<Rightarrow> advance_by_loop pull k (Suc i) e1))"

definition iter_advance_by ::
  "('s \<Rightarrow> 'a iter_result \<times> 's) \<Rightarrow> int \<Rightarrow> 's Iter \<Rightarrow> (error + nat option) \<times> 's Iter" where
  "iter_advance_by pull n e =
     (if n < 0 then (Inl TypeError, e) else advance_by_loop pull (nat n) 0 e)"

text \<open>\<open>nth(n)\<close>: \<open>for (let i = 0; i < n - 1; i++) this.next();\<close> and then \<open>return this.next()\<close>.\<close>

fun nth_loop ::
  "('s \<Rightarrow> 'a iter_result \<times> 's) \<Rightarrow> nat \<Rightarrow> 's Iter \<Rightarrow> (error + unit) \<times> 's Iter" where
  "nth_loop pull 0 e = (Inr (), e)"
| "nth_loop pull (Suc k) e =
     (case iter_next pull e of
        (Inl err, e1) \<Rightarrow> (Inl err, e1)
      | (Inr item, e1) \<Rightarrow> nth_loop pull k e1)"

definition iter_nth ::
  "('s \<Rightarrow> 'a iter_result \<times> 's) \<Rightarrow> int \<Rightarrow> 's Iter \<Rightarrow> (error + 'a option) \<times> 's Iter" where
  "iter_nth pull n e =
     (if n < 0 then (Inl TypeError, e)
      else
        (case nth_loop pull (nat (n - 1)) e of
           (Inl err, e1) \<Rightarrow> (Inl err, e1)
         | (Inr u, e1) \<Rightarrow> iter_next pull e1))"

section \<open>Terminal operations\<close>

text \<open>
  The loops below run until \<open>#done\<close> is set, which an iterator that never reports \<open>done\<close>
  or a dead fused engine never does. Each loop takes fuel, the number of times its test may
  be evaluated, and \<open>None\<close> says that the fuel ran out before the loop ended. An exception
  thrown by \<open>next()\<close> ends the operation with the engine as the exception left it.
\<close>

text \<open>\<open>all(f)\<close>.\<close>

fun all_loop ::
  "('s \<Rightarrow> 'a iter_result \<times> 's) \<Rightarrow> nat \<Rightarrow> ('a option \<Rightarrow> bool) \<Rightarrow> 'a option \<Rightarrow> 's Iter
     \<Rightarrow> ((error + bool) \<times> 's Iter) option" where
  "all_loop pull 0 f item e = None"
| "all_loop pull (Suc k) f item e =
     (if \<not> done_flag e then
        (if \<not> f item then Some (Inr False, e)
         else
           (case iter_next pull e of
              (Inl err, e1) \<Rightarrow> Some (Inl err, e1)
            | (Inr item1, e1) \<Rightarrow> all_loop pull k f item1 e1))
      else Some (Inr True, e))"

definition iter_all ::
  "('s \<Rightarrow> 'a iter_result \<times> 's) \<Rightarrow> nat \<Rightarrow> ('a option \<Rightarrow> bool) \<Rightarrow> 's Iter
     \<Rightarrow> ((error + bool) \<times> 's Iter) option" where
  "iter_all pull fuel f e =
     (case iter_next pull e of
        (Inl err, e1) \<Rightarrow> Some (Inl err, e1)
      | (Inr item, e1) \<Rightarrow> all_loop pull fuel f item e1)"

text \<open>\<open>any(f)\<close>.\<close>

fun any_loop ::
  "('s \<Rightarrow> 'a iter_result \<times> 's) \<Rightarrow> nat \<Rightarrow> ('a option \<Rightarrow> bool) \<Rightarrow> 'a option \<Rightarrow> 's Iter
     \<Rightarrow> ((error + bool) \<times> 's Iter) option" where
  "any_loop pull 0 f item e = None"
| "any_loop pull (Suc k) f item e =
     (if \<not> done_flag e then
        (if f item then Some (Inr True, e)
         else
           (case iter_next pull e of
              (Inl err, e1) \<Rightarrow> Some (Inl err, e1)
            | (Inr item1, e1) \<Rightarrow> any_loop pull k f item1 e1))
      else Some (Inr False, e))"

definition iter_any ::
  "('s \<Rightarrow> 'a iter_result \<times> 's) \<Rightarrow> nat \<Rightarrow> ('a option \<Rightarrow> bool) \<Rightarrow> 's Iter
     \<Rightarrow> ((error + bool) \<times> 's Iter) option" where
  "iter_any pull fuel f e =
     (case iter_next pull e of
        (Inl err, e1) \<Rightarrow> Some (Inl err, e1)
      | (Inr item, e1) \<Rightarrow> any_loop pull fuel f item e1)"

text \<open>\<open>last()\<close>: \<open>while (!this.#done) [last, item] = [item, this.next()];\<close>\<close>

fun last_loop ::
  "('s \<Rightarrow> 'a iter_result \<times> 's) \<Rightarrow> nat \<Rightarrow> 'a option \<Rightarrow> 'a option \<Rightarrow> 's Iter
     \<Rightarrow> ((error + 'a option) \<times> 's Iter) option" where
  "last_loop pull 0 lst item e = None"
| "last_loop pull (Suc k) lst item e =
     (if \<not> done_flag e then
        (case iter_next pull e of
           (Inl err, e1) \<Rightarrow> Some (Inl err, e1)
         | (Inr item1, e1) \<Rightarrow> last_loop pull k item item1 e1)
      else Some (Inr lst, e))"

definition iter_last ::
  "('s \<Rightarrow> 'a iter_result \<times> 's) \<Rightarrow> nat \<Rightarrow> 's Iter \<Rightarrow> ((error + 'a option) \<times> 's Iter) option" where
  "iter_last pull fuel e = last_loop pull fuel None None e"

text \<open>
  \<open>fold(init, f)\<close>: it sets \<open>#consumed\<close>, and each round of its \<open>do ... while (!this.#done)\<close>
  clears the flag around the call of \<open>next()\<close> and sets it again.
\<close>

fun fold_loop ::
  "('s \<Rightarrow> 'a iter_result \<times> 's) \<Rightarrow> nat \<Rightarrow> ('u \<Rightarrow> 'a option \<Rightarrow> 'u) \<Rightarrow> 'u \<Rightarrow> 's Iter
     \<Rightarrow> ((error + 'u) \<times> 's Iter) option" where
  "fold_loop pull 0 f init e = None"
| "fold_loop pull (Suc k) f init e =
     (case iter_next pull (e\<lparr>consumed := False\<rparr>) of
        (Inl err, e1) \<Rightarrow> Some (Inl err, e1)
      | (Inr item, e1) \<Rightarrow>
          let e2 = e1\<lparr>consumed := True\<rparr>;
              init1 = (if \<not> done_flag e2 then f init item else init)
          in if \<not> done_flag e2 then fold_loop pull k f init1 e2 else Some (Inr init1, e2))"

definition iter_fold ::
  "('s \<Rightarrow> 'a iter_result \<times> 's) \<Rightarrow> nat \<Rightarrow> 'u \<Rightarrow> ('u \<Rightarrow> 'a option \<Rightarrow> 'u) \<Rightarrow> 's Iter
     \<Rightarrow> ((error + 'u) \<times> 's Iter) option" where
  "iter_fold pull fuel init f e = fold_loop pull fuel f init (e\<lparr>consumed := True\<rparr>)"

text \<open>
  \<open>for_each(f)\<close>: the callback returns nothing and acts on the caller's state \<open>'w\<close>, which
  the model passes through the calls and returns.
\<close>

fun for_each_loop ::
  "('s \<Rightarrow> 'a iter_result \<times> 's) \<Rightarrow> nat \<Rightarrow> ('a option \<Rightarrow> 'w \<Rightarrow> 'w) \<Rightarrow> 'w \<Rightarrow> 's Iter
     \<Rightarrow> ((error + 'w) \<times> 's Iter) option" where
  "for_each_loop pull 0 f w e = None"
| "for_each_loop pull (Suc k) f w e =
     (case iter_next pull (e\<lparr>consumed := False\<rparr>) of
        (Inl err, e1) \<Rightarrow> Some (Inl err, e1)
      | (Inr item, e1) \<Rightarrow>
          let e2 = e1\<lparr>consumed := True\<rparr>;
              w1 = (if \<not> done_flag e2 then f item w else w)
          in if \<not> done_flag e2 then for_each_loop pull k f w1 e2 else Some (Inr w1, e2))"

definition iter_for_each ::
  "('s \<Rightarrow> 'a iter_result \<times> 's) \<Rightarrow> nat \<Rightarrow> ('a option \<Rightarrow> 'w \<Rightarrow> 'w) \<Rightarrow> 'w \<Rightarrow> 's Iter
     \<Rightarrow> ((error + 'w) \<times> 's Iter) option" where
  "iter_for_each pull fuel f w e = for_each_loop pull fuel f w (e\<lparr>consumed := True\<rparr>)"

text \<open>
  \<open>collect()\<close>: \<open>while (!this.#done) result.push(this.next()!);\<close> then it sets \<open>#consumed\<close>
  and pops the last entry, the "end" that the final call returned.
\<close>

fun collect_loop ::
  "('s \<Rightarrow> 'a iter_result \<times> 's) \<Rightarrow> nat \<Rightarrow> 'a option list \<Rightarrow> 's Iter
     \<Rightarrow> ((error + 'a option list) \<times> 's Iter) option" where
  "collect_loop pull 0 result e = None"
| "collect_loop pull (Suc k) result e =
     (if \<not> done_flag e then
        (case iter_next pull e of
           (Inl err, e1) \<Rightarrow> Some (Inl err, e1)
         | (Inr item, e1) \<Rightarrow> collect_loop pull k (result @ [item]) e1)
      else Some (Inr result, e))"

definition iter_collect ::
  "('s \<Rightarrow> 'a iter_result \<times> 's) \<Rightarrow> nat \<Rightarrow> 's Iter
     \<Rightarrow> ((error + 'a option list) \<times> 's Iter) option" where
  "iter_collect pull fuel e =
     (case collect_loop pull fuel [] e of
        None \<Rightarrow> None
      | Some (Inl err, e1) \<Rightarrow> Some (Inl err, e1)
      | Some (Inr result, e1) \<Rightarrow> Some (Inr (butlast result), e1\<lparr>consumed := True\<rparr>))"

text \<open>\<open>count()\<close> is \<open>this.collect().length\<close>.\<close>

definition iter_count ::
  "('s \<Rightarrow> 'a iter_result \<times> 's) \<Rightarrow> nat \<Rightarrow> 's Iter \<Rightarrow> ((error + nat) \<times> 's Iter) option" where
  "iter_count pull fuel e =
     (case iter_collect pull fuel e of
        None \<Rightarrow> None
      | Some (Inl err, e1) \<Rightarrow> Some (Inl err, e1)
      | Some (Inr result, e1) \<Rightarrow> Some (Inr (length result), e1))"

text \<open>
  \<open>partition(f)\<close>: \<open>result[+!bool].push(item)\<close> puts the items with a true \<open>f\<close> in the first
  array and the others in the second.
\<close>

fun partition_loop ::
  "('s \<Rightarrow> 'a iter_result \<times> 's) \<Rightarrow> nat \<Rightarrow> ('a option \<Rightarrow> bool)
     \<Rightarrow> 'a option list \<times> 'a option list \<Rightarrow> 's Iter
     \<Rightarrow> ((error + 'a option list \<times> 'a option list) \<times> 's Iter) option" where
  "partition_loop pull 0 f result e = None"
| "partition_loop pull (Suc k) f result e =
     (case iter_next pull e of
        (Inl err, e1) \<Rightarrow> Some (Inl err, e1)
      | (Inr item, e1) \<Rightarrow>
          let result1 =
                (if \<not> done_flag e1
                 then (if f item then (fst result @ [item], snd result)
                       else (fst result, snd result @ [item]))
                 else result)
          in if \<not> done_flag e1 then partition_loop pull k f result1 e1
             else Some (Inr result1, e1))"

definition iter_partition ::
  "('s \<Rightarrow> 'a iter_result \<times> 's) \<Rightarrow> nat \<Rightarrow> ('a option \<Rightarrow> bool) \<Rightarrow> 's Iter
     \<Rightarrow> ((error + 'a option list \<times> 'a option list) \<times> 's Iter) option" where
  "iter_partition pull fuel f e =
     (case partition_loop pull fuel f ([], []) e of
        None \<Rightarrow> None
      | Some (Inl err, e1) \<Rightarrow> Some (Inl err, e1)
      | Some (Inr result, e1) \<Rightarrow> Some (Inr result, e1\<lparr>consumed := True\<rparr>))"

text \<open>\<open>position(predicate)\<close>.\<close>

fun position_loop ::
  "('s \<Rightarrow> 'a iter_result \<times> 's) \<Rightarrow> nat \<Rightarrow> ('a option \<Rightarrow> bool) \<Rightarrow> 'a option \<Rightarrow> nat \<Rightarrow> 's Iter
     \<Rightarrow> ((error + nat option) \<times> 's Iter) option" where
  "position_loop pull 0 predicate item index e = None"
| "position_loop pull (Suc k) predicate item index e =
     (if \<not> done_flag e then
        (if predicate item then Some (Inr (Some index), e)
         else
           (case iter_next pull (e\<lparr>consumed := False\<rparr>) of
              (Inl err, e1) \<Rightarrow> Some (Inl err, e1)
            | (Inr item1, e1) \<Rightarrow>
                position_loop pull k predicate item1 (Suc index) (e1\<lparr>consumed := True\<rparr>)))
      else Some (Inr None, e))"

definition iter_position ::
  "('s \<Rightarrow> 'a iter_result \<times> 's) \<Rightarrow> nat \<Rightarrow> ('a option \<Rightarrow> bool) \<Rightarrow> 's Iter
     \<Rightarrow> ((error + nat option) \<times> 's Iter) option" where
  "iter_position pull fuel predicate e =
     (case iter_next pull e of
        (Inl err, e1) \<Rightarrow> Some (Inl err, e1)
      | (Inr item, e1) \<Rightarrow> position_loop pull fuel predicate item 0 e1)"

text \<open>\<open>reduce(f)\<close>.\<close>

fun reduce_loop ::
  "('s \<Rightarrow> 'a iter_result \<times> 's) \<Rightarrow> nat \<Rightarrow> ('a option \<Rightarrow> 'a option \<Rightarrow> 'a option) \<Rightarrow> 'a option
     \<Rightarrow> 's Iter \<Rightarrow> ((error + 'a option) \<times> 's Iter) option" where
  "reduce_loop pull 0 f init e = None"
| "reduce_loop pull (Suc k) f init e =
     (case iter_next pull (e\<lparr>consumed := False\<rparr>) of
        (Inl err, e1) \<Rightarrow> Some (Inl err, e1)
      | (Inr item, e1) \<Rightarrow>
          let e2 = e1\<lparr>consumed := True\<rparr>;
              init1 = (if \<not> done_flag e2 then f init item else init)
          in if \<not> done_flag e2 then reduce_loop pull k f init1 e2 else Some (Inr init1, e2))"

definition iter_reduce ::
  "('s \<Rightarrow> 'a iter_result \<times> 's) \<Rightarrow> nat \<Rightarrow> ('a option \<Rightarrow> 'a option \<Rightarrow> 'a option) \<Rightarrow> 's Iter
     \<Rightarrow> ((error + 'a option) \<times> 's Iter) option" where
  "iter_reduce pull fuel f e =
     (if done_flag e then Some (Inr None, e)
      else
        (case iter_next pull e of
           (Inl err, e1) \<Rightarrow> Some (Inl err, e1)
         | (Inr init, e1) \<Rightarrow> reduce_loop pull fuel f init e1))"

text \<open>
  \<open>sum()\<close> and \<open>product()\<close> fold with \<open>+\<close> from 0 and with \<open>*\<close> from 1. The coercion
  \<open>toNumber\<close> (helpers/toNumber.js, not among the sources) is a parameter, and the numbers
  are any type with these operations.
\<close>

definition iter_sum ::
  "('s \<Rightarrow> 'a iter_result \<times> 's) \<Rightarrow> nat \<Rightarrow> ('a option \<Rightarrow> 'n::{zero,plus}) \<Rightarrow> 's Iter
     \<Rightarrow> ((error + 'n) \<times> 's Iter) option" where
  "iter_sum pull fuel toNumber e =
     iter_fold pull fuel 0 (\<lambda>product item. product + toNumber item) e"

definition iter_product ::
  "('s \<Rightarrow> 'a iter_result \<times> 's) \<Rightarrow> nat \<Rightarrow> ('a option \<Rightarrow> 'n::{one,times}) \<Rightarrow> 's Iter
     \<Rightarrow> ((error + 'n) \<times> 's Iter) option" where
  "iter_product pull fuel toNumber e =
     iter_fold pull fuel 1 (\<lambda>product item. product * toNumber item) e"

section \<open>Operations on two engines\<close>

text \<open>
  \<open>eq_by(other, eq)\<close> calls \<open>next()\<close> on both engines while neither has \<open>#done\<close> set, and
  returns \<open>false\<close> from inside the loop at the first pair that \<open>eq\<close> rejects. Both flags
  \<open>#consumed\<close> are set after the loop. The result comes with both engines.
\<close>

fun eq_by_loop ::
  "('s \<Rightarrow> 'a iter_result \<times> 's) \<Rightarrow> ('t \<Rightarrow> 'b iter_result \<times> 't) \<Rightarrow> nat
     \<Rightarrow> ('a option \<Rightarrow> 'b option \<Rightarrow> bool) \<Rightarrow> 's Iter \<Rightarrow> 't Iter
     \<Rightarrow> ((error + bool) \<times> 's Iter \<times> 't Iter) option" where
  "eq_by_loop pa pb 0 eq this other = None"
| "eq_by_loop pa pb (Suc k) eq this other =
     (if \<not> done_flag this \<and> \<not> done_flag other then
        (case iter_next pa this of
           (Inl err, this1) \<Rightarrow> Some (Inl err, this1, other)
         | (Inr a, this1) \<Rightarrow>
             (case iter_next pb other of
                (Inl err, other1) \<Rightarrow> Some (Inl err, this1, other1)
              | (Inr b, other1) \<Rightarrow>
                  if \<not> eq a b then Some (Inr False, this1, other1)
                  else eq_by_loop pa pb k eq this1 other1))
      else
        let this1 = this\<lparr>consumed := True\<rparr>;
            other1 = other\<lparr>consumed := True\<rparr>
        in if \<not> done_flag this1 \<or> \<not> done_flag other1 then Some (Inr False, this1, other1)
           else Some (Inr True, this1, other1))"

definition iter_eq_by ::
  "('s \<Rightarrow> 'a iter_result \<times> 's) \<Rightarrow> ('t \<Rightarrow> 'b iter_result \<times> 't) \<Rightarrow> nat
     \<Rightarrow> 's Iter \<Rightarrow> 't Iter \<Rightarrow> ('a option \<Rightarrow> 'b option \<Rightarrow> bool)
     \<Rightarrow> ((error + bool) \<times> 's Iter \<times> 't Iter) option" where
  "iter_eq_by pa pb fuel this other eq = eq_by_loop pa pb fuel eq this other"

text \<open>
  \<open>eq(other)\<close> is \<open>eq_by(other, deepEqual)\<close>; the comparison \<open>deepEqual\<close> of the package
  deep-equal is a parameter.
\<close>

definition iter_eq ::
  "('s \<Rightarrow> 'a iter_result \<times> 's) \<Rightarrow> ('t \<Rightarrow> 'b iter_result \<times> 't) \<Rightarrow> nat
     \<Rightarrow> ('a option \<Rightarrow> 'b option \<Rightarrow> bool) \<Rightarrow> 's Iter \<Rightarrow> 't Iter
     \<Rightarrow> ((error + bool) \<times> 's Iter \<times> 't Iter) option" where
  "iter_eq pa pb fuel deepEqual this other = iter_eq_by pa pb fuel this other deepEqual"

text \<open>
  The number a comparator returns: an integer or \<open>NaN\<close>. \<open>cmp_by\<close> returns an \<open>Ord\<close>, one of
  \<open>-1\<close>, \<open>0\<close> and \<open>1\<close>.
\<close>

datatype js_number = NaN | Num int

text \<open>
  \<open>cmp_by(other, cmp)\<close>: inside the loop,
  \<open>if (ord !== 0) return Number.isNaN(ord) ? 0 : Math.sign(ord)\<close>.
\<close>

fun cmp_by_loop ::
  "('s \<Rightarrow> 'a iter_result \<times> 's) \<Rightarrow> ('t \<Rightarrow> 'b iter_result \<times> 't) \<Rightarrow> nat
     \<Rightarrow> ('a option \<Rightarrow> 'b option \<Rightarrow> js_number) \<Rightarrow> 's Iter \<Rightarrow> 't Iter
     \<Rightarrow> ((error + int) \<times> 's Iter \<times> 't Iter) option" where
  "cmp_by_loop pa pb 0 cmp this other = None"
| "cmp_by_loop pa pb (Suc k) cmp this other =
     (if \<not> done_flag this \<and> \<not> done_flag other then
        (case iter_next pa this of
           (Inl err, this1) \<Rightarrow> Some (Inl err, this1, other)
         | (Inr a, this1) \<Rightarrow>
             (case iter_next pb other of
                (Inl err, other1) \<Rightarrow> Some (Inl err, this1, other1)
              | (Inr b, other1) \<Rightarrow>
                  let ord = cmp a b
                  in if ord \<noteq> Num 0
                     then Some (Inr (case ord of NaN \<Rightarrow> 0 | Num x \<Rightarrow> sgn x), this1, other1)
                     else cmp_by_loop pa pb k cmp this1 other1))
      else
        let this1 = this\<lparr>consumed := True\<rparr>;
            other1 = other\<lparr>consumed := True\<rparr>
        in if \<not> done_flag this1 then Some (Inr 1, this1, other1)
           else if \<not> done_flag other1 then Some (Inr (- 1), this1, other1)
           else Some (Inr 0, this1, other1))"

definition iter_cmp_by ::
  "('s \<Rightarrow> 'a iter_result \<times> 's) \<Rightarrow> ('t \<Rightarrow> 'b iter_result \<times> 't) \<Rightarrow> nat
     \<Rightarrow> 's Iter \<Rightarrow> 't Iter \<Rightarrow> ('a option \<Rightarrow> 'b option \<Rightarrow> js_number)
     \<Rightarrow> ((error + int) \<times> 's Iter \<times> 't Iter) option" where
  "iter_cmp_by pa pb fuel this other cmp = cmp_by_loop pa pb fuel cmp this other"

text \<open>
  The numeric comparator a caller passes, \<open>(a, b) => a - b\<close>: the difference of two
  numbers, and \<open>NaN\<close> when an operand is \<open>undefined\<close>.
\<close>

fun subtract :: "int option \<Rightarrow> int option \<Rightarrow> js_number" where
  "subtract (Some a) (Some b) = Num (a - b)"
| "subtract a b = NaN"

text \<open>
  \<open>zip(other)\<close> sets both flags \<open>#consumed\<close> and returns a new engine over an iterator
  object whose \<open>next\<close> pulls \<open>this.#iter\<close> and \<open>other.#iter\<close>. The state of that object is
  the pair of the two iterators.
\<close>

definition zip_pull ::
  "('s \<Rightarrow> 'a iter_result \<times> 's) \<Rightarrow> ('t \<Rightarrow> 'b iter_result \<times> 't) \<Rightarrow> 's \<times> 't
     \<Rightarrow> ('a option \<times> 'b option) iter_result \<times> ('s \<times> 't)" where
  "zip_pull pa pb st =
     (let (a, s) = pa (fst st);
          (b, t) = pb (snd st)
      in if rdone a \<or> rdone b then (IterResult None True, (s, t))
         else (IterResult (Some (rvalue a, rvalue b)) False, (s, t)))"

definition iter_zip :: "'s Iter \<Rightarrow> 't Iter \<Rightarrow> 's Iter \<times> 't Iter \<times> ('s \<times> 't) Iter" where
  "iter_zip this other =
     (this\<lparr>consumed := True\<rparr>, other\<lparr>consumed := True\<rparr>, new_Iter (iter this, iter other))"

text \<open>\<open>chain(other)\<close>: the new iterator pulls \<open>this.#iter\<close>, and \<open>other.#iter\<close> when that is
  \<open>done\<close>.\<close>

definition chain_pull ::
  "('s \<Rightarrow> 'a iter_result \<times> 's) \<Rightarrow> ('t \<Rightarrow> 'a iter_result \<times> 't) \<Rightarrow> 's \<times> 't
     \<Rightarrow> 'a iter_result \<times> ('s \<times> 't)" where
  "chain_pull pa pb st =
     (let (r, s) = pa (fst st)
      in if rdone r then (let (r2, t) = pb (snd st) in (r2, (s, t)))
         else (r, (s, snd st)))"

definition iter_chain :: "'s Iter \<Rightarrow> 't Iter \<Rightarrow> 's Iter \<times> 't Iter \<times> ('s \<times> 't) Iter" where
  "iter_chain this other =
     (this\<lparr>consumed := True\<rparr>, other\<lparr>consumed := True\<rparr>, new_Iter (iter this, iter other))"

section \<open>skip_while\<close>

text \<open>
  \<open>skip_while(predicate)\<close> sets \<open>#consumed\<close> and returns a new engine over a generator
  closed over \<open>this\<close>. The generator's frame is the engine \<open>this\<close> and the point where the
  generator stands. The engine wraps a scripted iterator here, so that the first loop of
  the generator, which pulls until a result is \<open>done\<close> or fails the predicate, ends.
\<close>

datatype skip_pc = SkipStart | SkipYieldedFirst | SkipYieldedItem | SkipReturned

record 'a skip_while_gen =
  sw_this :: "'a iter_result list Iter"
  sw_pc :: skip_pc

text \<open>
  \<open>while (!item.done && predicate(item.value)) item = this.#iter.next();\<close> on the result
  \<open>item\<close> and the iterator \<open>s\<close>.
\<close>

function skip_while_scan ::
  "('a option \<Rightarrow> bool) \<Rightarrow> 'a iter_result \<Rightarrow> 'a iter_result list
     \<Rightarrow> 'a iter_result \<times> 'a iter_result list" where
  "skip_while_scan predicate item s =
     (if \<not> rdone item \<and> predicate (rvalue item)
      then skip_while_scan predicate (fst (script_pull s)) (snd (script_pull s))
      else (item, s))"
  by pat_completeness auto
termination
proof (relation "measure (\<lambda>(predicate, item, s). length s + (if rdone item then 0 else 1))")
  show "wf (measure (\<lambda>(predicate :: 'a option \<Rightarrow> bool, item :: 'a iter_result,
                          s :: 'a iter_result list). length s + (if rdone item then 0 else 1)))"
    by simp
next
  fix predicate :: "'a option \<Rightarrow> bool" and item :: "'a iter_result" and s :: "'a iter_result list"
  assume "\<not> rdone item \<and> predicate (rvalue item)"
  then show "((predicate, fst (script_pull s), snd (script_pull s)), (predicate, item, s))
               \<in> measure (\<lambda>(predicate, item, s). length s + (if rdone item then 0 else 1))"
    by (cases s) auto
qed

declare skip_while_scan.simps [simp del]

text \<open>
  One round of \<open>do { ... } while (!this.#done)\<close>, from the top of its body: the flag
  \<open>#consumed\<close> is cleared before \<open>this.next()\<close>, which therefore passes its guard, and set
  after it. The round yields the item when \<open>#done\<close> is not set; otherwise the test of the
  loop fails and the generator returns.
\<close>

definition skip_while_round :: "'a skip_while_gen \<Rightarrow> 'a iter_result \<times> 'a skip_while_gen" where
  "skip_while_round g =
     (let (item, this1) = next_unguarded script_pull ((sw_this g)\<lparr>consumed := False\<rparr>);
          this2 = this1\<lparr>consumed := True\<rparr>
      in if \<not> done_flag this2
         then (IterResult item False, g\<lparr>sw_this := this2, sw_pc := SkipYieldedItem\<rparr>)
         else (IterResult None True, g\<lparr>sw_this := this2, sw_pc := SkipReturned\<rparr>))"

text \<open>
  The generator's \<open>next()\<close>. Its first run clears \<open>#consumed\<close>, pulls \<open>this.#iter\<close> directly
  past the results that pass the predicate, and yields \<open>item.value\<close> without a test of
  \<open>item.done\<close>.
\<close>

definition skip_while_pull ::
  "('a option \<Rightarrow> bool) \<Rightarrow> 'a skip_while_gen \<Rightarrow> 'a iter_result \<times> 'a skip_while_gen" where
  "skip_while_pull predicate g =
     (case sw_pc g of
        SkipStart \<Rightarrow>
          let this0 = (sw_this g)\<lparr>consumed := False\<rparr>;
              (item0, s0) = script_pull (iter this0);
              (item, s) = skip_while_scan predicate item0 s0
          in (IterResult (rvalue item) False,
              g\<lparr>sw_this := this0\<lparr>iter := s\<rparr>, sw_pc := SkipYieldedFirst\<rparr>)
      | SkipYieldedFirst \<Rightarrow> skip_while_round g
      | SkipYieldedItem \<Rightarrow>
          if \<not> done_flag (sw_this g) then skip_while_round g
          else (IterResult None True, g\<lparr>sw_pc := SkipReturned\<rparr>)
      | SkipReturned \<Rightarrow> (IterResult None True, g))"

definition iter_skip_while ::
  "('a option \<Rightarrow> bool) \<Rightarrow> 'a iter_result list Iter
     \<Rightarrow> 'a iter_result list Iter \<times> 'a skip_while_gen Iter" where
  "iter_skip_while predicate this =
     (this\<lparr>consumed := True\<rparr>,
      new_Iter \<lparr>sw_this = this\<lparr>consumed := True\<rparr>, sw_pc = SkipStart\<rparr>)"

section \<open>filter and find\<close>

text \<open>
  \<open>filter(f)\<close> sets \<open>#consumed\<close> and returns a new engine over a generator closed over
  \<open>this\<close>. Each round of the generator's \<open>do ... while (!this.#done)\<close> clears \<open>#consumed\<close>,
  calls \<open>this.next()\<close> until \<open>#done\<close> is set or an item passes \<open>f\<close>, yields that item when
  \<open>#done\<close> is not set, and sets \<open>#consumed\<close> after the yield, when the generator is
  resumed. The inner loop takes fuel, and a pull of the generator is \<open>None\<close> when the fuel
  runs out.
\<close>

datatype filter_pc = FilterStart | FilterYielded | FilterReturned

record 's filter_gen =
  fl_this :: "'s Iter"
  fl_pc :: filter_pc

text \<open>\<open>while (!this.#done && !f(item)) item = this.next();\<close> with \<open>#consumed\<close> cleared.\<close>

fun filter_scan ::
  "('s \<Rightarrow> 'a iter_result \<times> 's) \<Rightarrow> nat \<Rightarrow> ('a option \<Rightarrow> bool) \<Rightarrow> 'a option \<Rightarrow> 's Iter
     \<Rightarrow> ('a option \<times> 's Iter) option" where
  "filter_scan pull 0 f item e = None"
| "filter_scan pull (Suc k) f item e =
     (if \<not> done_flag e \<and> \<not> f item
      then (let (item1, e1) = next_unguarded pull e in filter_scan pull k f item1 e1)
      else Some (item, e))"

text \<open>One round of the outer loop, from the top of its body.\<close>

definition filter_round ::
  "('s \<Rightarrow> 'a iter_result \<times> 's) \<Rightarrow> nat \<Rightarrow> ('a option \<Rightarrow> bool) \<Rightarrow> 's filter_gen
     \<Rightarrow> ('a iter_result \<times> 's filter_gen) option" where
  "filter_round pull fuel f g =
     (let (item0, this1) = next_unguarded pull ((fl_this g)\<lparr>consumed := False\<rparr>)
      in case filter_scan pull fuel f item0 this1 of
           None \<Rightarrow> None
         | Some (item, this2) \<Rightarrow>
             if \<not> done_flag this2
             then Some (IterResult item False, g\<lparr>fl_this := this2, fl_pc := FilterYielded\<rparr>)
             else Some (IterResult None True,
                        g\<lparr>fl_this := this2\<lparr>consumed := True\<rparr>, fl_pc := FilterReturned\<rparr>))"

text \<open>The generator's \<open>next()\<close>.\<close>

definition filter_pull ::
  "('s \<Rightarrow> 'a iter_result \<times> 's) \<Rightarrow> nat \<Rightarrow> ('a option \<Rightarrow> bool) \<Rightarrow> 's filter_gen
     \<Rightarrow> ('a iter_result \<times> 's filter_gen) option" where
  "filter_pull pull fuel f g =
     (case fl_pc g of
        FilterStart \<Rightarrow> filter_round pull fuel f g
      | FilterYielded \<Rightarrow>
          let g1 = g\<lparr>fl_this := (fl_this g)\<lparr>consumed := True\<rparr>\<rparr>
          in if \<not> done_flag (fl_this g1) then filter_round pull fuel f g1
             else Some (IterResult None True, g1\<lparr>fl_pc := FilterReturned\<rparr>)
      | FilterReturned \<Rightarrow> Some (IterResult None True, g))"

definition iter_filter :: "('a option \<Rightarrow> bool) \<Rightarrow> 's Iter \<Rightarrow> 's Iter \<times> 's filter_gen Iter" where
  "iter_filter f this =
     (this\<lparr>consumed := True\<rparr>,
      new_Iter \<lparr>fl_this = this\<lparr>consumed := True\<rparr>, fl_pc = FilterStart\<rparr>)"

text \<open>
  \<open>find(f)\<close> is \<open>this.filter(f).next()\<close>. The engine that \<open>filter\<close> returns is new, so its
  \<open>next()\<close> passes both guards, pulls the generator once and returns the value of the
  result, or "end" for a \<open>done\<close> result. \<open>find\<close> returns with the engine \<open>this\<close> as that one
  pull leaves it.
\<close>

definition iter_find ::
  "('s \<Rightarrow> 'a iter_result \<times> 's) \<Rightarrow> nat \<Rightarrow> ('a option \<Rightarrow> bool) \<Rightarrow> 's Iter
     \<Rightarrow> ((error + 'a option) \<times> 's Iter) option" where
  "iter_find pull fuel f this =
     (case filter_pull pull fuel f (iter (snd (iter_filter f this))) of
        None \<Rightarrow> None
      | Some (r, g) \<Rightarrow> Some (Inr (if \<not> rdone r then rvalue r else None), fl_this g))"

text \<open>
  An engine over the array \<open>xs\<close> that can be read: not consumed, dead only at the end of
  \<open>xs\<close>, and with no element \<open>undefined\<close> if \<open>fuse()\<close> has been called.
\<close>

definition array_engine :: "'a iter_result list Iter \<Rightarrow> 'a option list \<Rightarrow> bool" where
  "array_engine e xs =
     (\<not> consumed e \<and> iter e = of_array xs
      \<and> (if dead (fused e) then xs = [] else True)
      \<and> (if called (fused e) then None \<notin> set xs else True))"

text \<open>The predicate a caller passes, \<open>x => x < 4\<close>: false on \<open>undefined\<close>.\<close>

definition below4 :: "int option \<Rightarrow> bool" where
  "below4 x = (case x of None \<Rightarrow> False | Some v \<Rightarrow> v < 4)"

section \<open>Properties of next, peek and fuse\<close>

lemma next_consumed: "consumed e \<Longrightarrow> iter_next pull e = (Inl ReferenceError, e)"
  by (simp add: iter_next_def)

lemma next_dead: "\<not> consumed e \<Longrightarrow> dead (fused e) \<Longrightarrow> iter_next pull e = (Inr None, e)"
  by (simp add: iter_next_def next_unguarded_def)

lemma next_pulls:
  "\<not> consumed e \<Longrightarrow> \<not> dead (fused e) \<Longrightarrow> pull (iter e) = (r, s) \<Longrightarrow>
   iter_next pull e =
     (Inr (if \<not> rdone r then rvalue r else None),
      if called (fused e) \<and> rvalue r = None
      then e\<lparr>iter := s, done_flag := rdone r, fused := (fused e)\<lparr>dead := True\<rparr>\<rparr>
      else e\<lparr>iter := s, done_flag := rdone r\<rparr>)"
  by (simp add: iter_next_def next_unguarded_def Let_def)

lemma next_keeps_consumed: "consumed (snd (iter_next pull e)) = consumed e"
  by (simp add: iter_next_def next_unguarded_def Let_def split: prod.splits)

lemma next_calls_Suc:
  "fst (next_calls pull (Suc n) e) =
     fst (iter_next pull e) # fst (next_calls pull n (snd (iter_next pull e)))"
  by (simp add: split_def Let_def)

lemma next_calls_dead:
  "\<not> consumed e \<Longrightarrow> dead (fused e) \<Longrightarrow> next_calls pull n e = (replicate n (Inr None), e)"
  by (induction n) (simp_all add: next_dead)

lemma next_calls_all_end:
  "\<not> consumed e \<Longrightarrow> list_all yields_end (pulls pull n (iter e)) \<Longrightarrow>
   fst (next_calls pull n e) = replicate n (Inr None)"
proof (induction n arbitrary: e)
  case 0
  then show ?case by simp
next
  case (Suc n)
  show ?case
  proof (cases "dead (fused e)")
    case True
    with Suc.prems show ?thesis by (simp add: next_calls_dead del: next_calls.simps)
  next
    case False
    obtain r s where p: "pull (iter e) = (r, s)" by (cases "pull (iter e)")
    from Suc.prems p have r: "yields_end r" and rest: "list_all yields_end (pulls pull n s)"
      by simp_all
    let ?e1 = "snd (iter_next pull e)"
    have out: "fst (iter_next pull e) = Inr None"
      using Suc.prems(1) False p r by (auto simp: next_pulls yields_end_def)
    have c: "\<not> consumed ?e1" using Suc.prems(1) by (simp add: next_keeps_consumed)
    have i: "iter ?e1 = s" using Suc.prems(1) False p by (simp add: next_pulls)
    have "fst (next_calls pull n ?e1) = replicate n (Inr None)"
      using Suc.IH [OF c] rest i by simp
    with out show ?thesis by (simp only: next_calls_Suc replicate_Suc)
  qed
qed

lemma finishing_pull:
  "peek_finishing g \<Longrightarrow>
   peek_gen_pull pull g = (IterResult None True, g\<lparr>pk_pc := PeekReturned\<rparr>)"
  by (auto simp: peek_finishing_def peek_gen_pull_def peek_gen_loop_def split: option.splits)

lemma next_calls_finishing:
  "\<not> consumed e \<Longrightarrow> peek_finishing (iter e) \<Longrightarrow>
   fst (next_calls (peek_gen_pull pull) n e) = replicate n (Inr None)"
proof (induction n arbitrary: e)
  case 0
  then show ?case by simp
next
  case (Suc n)
  show ?case
  proof (cases "dead (fused e)")
    case True
    with Suc.prems show ?thesis by (simp add: next_calls_dead del: next_calls.simps)
  next
    case False
    let ?e1 = "snd (iter_next (peek_gen_pull pull) e)"
    note p = finishing_pull [OF Suc.prems(2), of pull]
    have out: "fst (iter_next (peek_gen_pull pull) e) = Inr None"
      using Suc.prems(1) False by (simp add: next_pulls [where pull = "peek_gen_pull pull" and e = e, OF _ _ p])
    have c: "\<not> consumed ?e1" using Suc.prems(1) by (simp add: next_keeps_consumed)
    have i: "peek_finishing (iter ?e1)"
      using Suc.prems(1) False by (simp add: next_pulls [where pull = "peek_gen_pull pull" and e = e, OF _ _ p] peek_finishing_def)
    have "fst (next_calls (peek_gen_pull pull) n ?e1) = replicate n (Inr None)"
      using Suc.IH [OF c i] .
    with out show ?thesis by (simp only: next_calls_Suc replicate_Suc)
  qed
qed

lemma running_pull:
  "peek_running g \<Longrightarrow> pull (pk_source g) = (r, s) \<Longrightarrow>
   peek_gen_pull pull g =
     (IterResult (rvalue r) False, g\<lparr>pk_source := s, pk_item := Some r, pk_pc := PeekYieldedItem\<rparr>)"
  by (auto simp: peek_running_def peek_gen_pull_def peek_gen_loop_def split: option.splits)

lemma next_calls_running:
  "\<not> consumed e \<Longrightarrow> consumed e' = consumed e \<Longrightarrow> fused e' = fused e \<Longrightarrow>
   peek_running (iter e') \<Longrightarrow> pk_source (iter e') = iter e \<Longrightarrow>
   settles (pulls pull n (iter e)) \<Longrightarrow>
   fst (next_calls (peek_gen_pull pull) n e') = fst (next_calls pull n e)"
proof (induction n arbitrary: e e')
  case 0
  then show ?case by simp
next
  case (Suc n)
  show ?case
  proof (cases "dead (fused e)")
    case True
    with Suc.prems show ?thesis by (simp add: next_calls_dead del: next_calls.simps)
  next
    case False
    obtain r s where p: "pull (iter e) = (r, s)" by (cases "pull (iter e)")
    from Suc.prems(5) p have p': "pull (pk_source (iter e')) = (r, s)" by simp
    note g = running_pull [where pull = pull and g = "iter e'", OF Suc.prems(4) p']
    let ?e1 = "snd (iter_next pull e)"
    let ?e1' = "snd (iter_next (peek_gen_pull pull) e')"
    have nc: "\<not> consumed e'" "\<not> dead (fused e')" using Suc.prems False by simp_all
    have c: "\<not> consumed ?e1" "\<not> consumed ?e1'"
      using Suc.prems(1) nc by (simp_all add: next_keeps_consumed)
    have i: "iter ?e1 = s" using Suc.prems(1) False p by (simp add: next_pulls)
    have f: "fused ?e1' = fused ?e1"
      using Suc.prems(1,3) False nc by (simp add: next_pulls [where pull = pull and e = e, OF _ _ p] next_pulls [where pull = "peek_gen_pull pull" and e = e', OF _ _ g])
    show ?thesis
    proof (cases "rdone r")
      case True
      with Suc.prems(6) p have v: "rvalue r = None" and rest: "list_all yields_end (pulls pull n s)"
        by simp_all
      have out: "fst (iter_next pull e) = Inr None" "fst (iter_next (peek_gen_pull pull) e') = Inr None"
        using Suc.prems(1) False nc True v
        by (simp_all add: next_pulls [where pull = pull and e = e, OF _ _ p] next_pulls [where pull = "peek_gen_pull pull" and e = e', OF _ _ g])
      have fin: "peek_finishing (iter ?e1')"
        using nc True by (simp add: next_pulls [where pull = "peek_gen_pull pull" and e = e', OF _ _ g] peek_finishing_def)
      have "fst (next_calls pull n ?e1) = replicate n (Inr None)"
        using next_calls_all_end [OF c(1)] rest i by simp
      moreover have "fst (next_calls (peek_gen_pull pull) n ?e1') = replicate n (Inr None)"
        using next_calls_finishing [OF c(2) fin] .
      ultimately show ?thesis using out by (simp only: next_calls_Suc replicate_Suc)
    next
      case False
      with Suc.prems(6) p have rest: "settles (pulls pull n s)" by simp
      have out: "fst (iter_next (peek_gen_pull pull) e') = fst (iter_next pull e)"
        using Suc.prems(1) \<open>\<not> dead (fused e)\<close> nc False
        by (simp add: next_pulls [where pull = pull and e = e, OF _ _ p] next_pulls [where pull = "peek_gen_pull pull" and e = e', OF _ _ g])
      have run: "peek_running (iter ?e1')" "pk_source (iter ?e1') = iter ?e1"
        using nc False i by (simp_all add: next_pulls [where pull = "peek_gen_pull pull" and e = e', OF _ _ g] peek_running_def)
      have "fst (next_calls (peek_gen_pull pull) n ?e1') = fst (next_calls pull n ?e1)"
        using Suc.IH [OF c(1) _ f run] c rest i by simp
      with out show ?thesis by (simp only: next_calls_Suc replicate_Suc)
    qed
  qed
qed


lemma peek_start_pull:
  "pull (iter e) = (r, s) \<Longrightarrow>
   peek_gen_pull pull (iter (snd (iter_peek pull e))) =
     (IterResult (if rdone r then None else rvalue r) (rdone r),
      \<lparr>pk_peeked = r, pk_source = s, pk_item = None,
         pk_pc = (if rdone r then PeekReturned else PeekYieldedPeeked)\<rparr>)"
  by (simp add: iter_peek_def peek_gen_pull_def)

lemma peek_flags:
  "consumed (snd (iter_peek pull e)) = consumed e"
  "fused (snd (iter_peek pull e)) = fused e"
  "done_flag (snd (iter_peek pull e)) = done_flag e"
  by (simp_all add: iter_peek_def split_def Let_def)

lemma peek_value:
  "pull (iter e) = (r, s) \<Longrightarrow> fst (iter_peek pull e) = (if rdone r then None else rvalue r)"
  by (simp add: iter_peek_def)

text \<open>
  The values of the calls. For every engine that is neither consumed nor dead, and every
  iterator whose first \<open>n + 1\<close> results settle, \<open>peek()\<close> and the \<open>next()\<close> that follows
  return the same value, and the first \<open>n + 1\<close> calls of \<open>next()\<close> after the \<open>peek()\<close>
  return the values they return when \<open>peek()\<close> is not called. A returned \<open>undefined\<close> is the
  same for an element \<open>undefined\<close> and for "end", so this does not say where the sequence
  ends: that is the flag \<open>#done\<close>, which the operations that drain the engine test.
\<close>

lemma peek_then_next_values:
  assumes "\<not> consumed e" and "\<not> dead (fused e)"
    and "settles (pulls pull (Suc n) (iter e))"
  shows "fst (iter_next (peek_gen_pull pull) (snd (iter_peek pull e))) = Inr (fst (iter_peek pull e))
       \<and> fst (next_calls (peek_gen_pull pull) (Suc n) (snd (iter_peek pull e))) =
           fst (next_calls pull (Suc n) e)"
proof -
  obtain r s where p: "pull (iter e) = (r, s)" by (cases "pull (iter e)")
  let ?e' = "snd (iter_peek pull e)"
  let ?e1 = "snd (iter_next pull e)"
  let ?e1' = "snd (iter_next (peek_gen_pull pull) ?e')"
  note g = peek_start_pull [where pull = pull and e = e, OF p]
  have nc: "\<not> consumed ?e'" "\<not> dead (fused ?e')" using assms by (simp_all add: peek_flags)
  note n' = next_pulls [where pull = "peek_gen_pull pull" and e = ?e', OF nc g]
  note n = next_pulls [where pull = pull and e = e, OF assms(1,2) p]
  have same: "fst (iter_next (peek_gen_pull pull) ?e') = Inr (fst (iter_peek pull e))"
    by (simp add: n' peek_value [where pull = pull and e = e, OF p])
  have out: "fst (iter_next (peek_gen_pull pull) ?e') = fst (iter_next pull e)"
    using assms(3) p by (simp add: n n')
  have c: "\<not> consumed ?e1" "\<not> consumed ?e1'"
    using assms(1) nc by (simp_all add: next_keeps_consumed)
  have i: "iter ?e1 = s" by (simp add: n)
  have f: "fused ?e1' = fused ?e1"
    using assms(3) p by (simp add: n n' peek_flags)
  have "fst (next_calls (peek_gen_pull pull) n ?e1') = fst (next_calls pull n ?e1)"
  proof (cases "rdone r")
    case True
    with assms(3) p have rest: "list_all yields_end (pulls pull n s)" by simp
    have fin: "peek_finishing (iter ?e1')"
      using True by (simp add: n' peek_finishing_def)
    have "fst (next_calls pull n ?e1) = replicate n (Inr None)"
      using next_calls_all_end [OF c(1)] rest i by simp
    moreover have "fst (next_calls (peek_gen_pull pull) n ?e1') = replicate n (Inr None)"
      using next_calls_finishing [OF c(2) fin] .
    ultimately show ?thesis by simp
  next
    case False
    with assms(3) p have rest: "settles (pulls pull n s)" by simp
    have run: "peek_running (iter ?e1')" "pk_source (iter ?e1') = iter ?e1"
      using False i by (simp_all add: n' peek_running_def)
    show ?thesis
      using next_calls_running [OF c(1) _ f run] c rest i by simp
  qed
  with out same show ?thesis by (simp only: next_calls_Suc)
qed

text \<open>
  Outside these conditions the values differ too. An iterator that reports \<open>done\<close> and then
  resumes with 5: without \<open>peek()\<close> the second \<open>next()\<close> returns 5, after \<open>peek()\<close> it returns
  "end". A generator that yields 1 and returns 9: without \<open>peek()\<close> the second \<open>next()\<close>
  returns "end", after \<open>peek()\<close> it returns 9. An engine that \<open>zip\<close> has consumed: \<open>peek()\<close>
  returns 1 and the \<open>next()\<close> that follows throws. A fused engine that is dead after the
  \<open>undefined\<close> element of \<open>[undefined, 1]\<close>: \<open>peek()\<close> returns 1 and the \<open>next()\<close> that
  follows returns "end".
\<close>

lemma peek_irregular_cases:
  "fst (next_calls script_pull 2
          (new_Iter [IterResult None True, IterResult (Some (5::int)) False])) =
     [Inr None, Inr (Some 5)]
   \<and> fst (next_calls (peek_gen_pull script_pull) 2
          (snd (iter_peek script_pull
                  (new_Iter [IterResult None True, IterResult (Some (5::int)) False])))) =
     [Inr None, Inr None]
   \<and> fst (next_calls script_pull 2
          (new_Iter [IterResult (Some (1::int)) False, IterResult (Some 9) True])) =
     [Inr (Some 1), Inr None]
   \<and> fst (next_calls (peek_gen_pull script_pull) 2
          (snd (iter_peek script_pull
                  (new_Iter [IterResult (Some (1::int)) False, IterResult (Some 9) True])))) =
     [Inr (Some 1), Inr (Some 9)]
   \<and> fst (iter_peek script_pull
            (fst (iter_zip (new_Iter (of_array [Some (1::int)]))
                           (new_Iter (of_array ([] :: int option list)))))) = Some 1
   \<and> fst (iter_next (peek_gen_pull script_pull)
            (snd (iter_peek script_pull
                    (fst (iter_zip (new_Iter (of_array [Some (1::int)]))
                                   (new_Iter (of_array ([] :: int option list)))))))) =
     Inl ReferenceError
   \<and> fst (iter_peek script_pull
            (snd (iter_next script_pull
                    (iter_fuse (new_Iter (of_array [None, Some (1::int)])))))) = Some 1
   \<and> fst (iter_next (peek_gen_pull script_pull)
            (snd (iter_peek script_pull
                    (snd (iter_next script_pull
                            (iter_fuse (new_Iter (of_array [None, Some (1::int)])))))))) =
     Inr None"
  by (simp add: new_Iter_def of_array_def iter_next_def next_unguarded_def iter_peek_def
      peek_gen_pull_def peek_gen_loop_def iter_zip_def iter_fuse_def numeral_2_eq_2)

text \<open>
  C1. After \<open>peek()\<close> the sequence ends one element later than without it. The generator
  that \<open>peek()\<close> installs runs \<open>yield (item = source.next()).value\<close> before it tests
  \<open>item.done\<close>, so it yields the \<open>done\<close> result of the iterator as an element \<open>undefined\<close>
  and reports \<open>done\<close> on the pull after it. On the array \<open>[1, 2]\<close>, \<open>peek()\<close> returns 1 and
  the three calls of \<open>next()\<close> after it return 1, 2 and \<open>undefined\<close>, as without \<open>peek()\<close>,
  but \<open>#done\<close> is not set after the third call where it is set without \<open>peek()\<close>: the
  generator's results are 1, 2, \<open>{value: undefined, done: false}\<close> and then
  \<open>{value: undefined, done: true}\<close>. So \<open>collect()\<close> after \<open>peek()\<close> returns
  \<open>[1, 2, undefined]\<close> and \<open>count()\<close> returns 3, where \<open>collect()\<close> without \<open>peek()\<close> returns
  \<open>[1, 2]\<close>.
\<close>

theorem peek_delays_end:
  "fst (iter_peek script_pull (new_Iter (of_array [Some (1::int), Some 2]))) = Some 1
   \<and> pulls (peek_gen_pull script_pull) 4
        (iter (snd (iter_peek script_pull (new_Iter (of_array [Some (1::int), Some 2]))))) =
       [IterResult (Some 1) False, IterResult (Some 2) False, IterResult None False,
        IterResult None True]
   \<and> pulls script_pull 3 (iter (new_Iter (of_array [Some (1::int), Some 2]))) =
       [IterResult (Some 1) False, IterResult (Some 2) False, IterResult None True]
   \<and> fst (next_calls (peek_gen_pull script_pull) 3
          (snd (iter_peek script_pull (new_Iter (of_array [Some (1::int), Some 2]))))) =
       [Inr (Some 1), Inr (Some 2), Inr None]
   \<and> done_flag (snd (next_calls (peek_gen_pull script_pull) 3
          (snd (iter_peek script_pull (new_Iter (of_array [Some (1::int), Some 2])))))) = False
   \<and> fst (next_calls script_pull 3 (new_Iter (of_array [Some (1::int), Some 2]))) =
       [Inr (Some 1), Inr (Some 2), Inr None]
   \<and> done_flag (snd (next_calls script_pull 3 (new_Iter (of_array [Some (1::int), Some 2])))) =
       True
   \<and> map_option fst
        (iter_collect (peek_gen_pull script_pull) 5
           (snd (iter_peek script_pull (new_Iter (of_array [Some (1::int), Some 2]))))) =
       Some (Inr [Some 1, Some 2, None])
   \<and> map_option fst
        (iter_collect script_pull 5 (new_Iter (of_array [Some (1::int), Some 2]))) =
       Some (Inr [Some 1, Some 2])
   \<and> map_option fst
        (iter_count (peek_gen_pull script_pull) 5
           (snd (iter_peek script_pull (new_Iter (of_array [Some (1::int), Some 2]))))) =
       Some (Inr 3)"
  by (simp add: new_Iter_def of_array_def iter_next_def next_unguarded_def iter_peek_def
      peek_gen_pull_def peek_gen_loop_def iter_collect_def iter_count_def eval_nat_numeral)

text \<open>
  C2. On a consumed engine \<open>next()\<close> throws \<open>ReferenceError\<close> and leaves the engine and its
  iterator as they are, but \<open>peek()\<close> has no such guard. With \<open>it = iter([1, 2])\<close> consumed by
  \<open>it.zip(iter([]))\<close>, \<open>it.next()\<close> throws and \<open>it.peek()\<close> returns 1, having pulled the
  iterator, which has only the 2 left.
\<close>

theorem peek_on_consumed_engine:
  "consumed (fst (iter_zip (new_Iter (of_array [Some (1::int), Some 2]))
                           (new_Iter (of_array ([] :: int option list)))))
   \<and> iter_next script_pull
        (fst (iter_zip (new_Iter (of_array [Some (1::int), Some 2]))
                       (new_Iter (of_array ([] :: int option list))))) =
       (Inl ReferenceError,
        fst (iter_zip (new_Iter (of_array [Some (1::int), Some 2]))
                      (new_Iter (of_array ([] :: int option list)))))
   \<and> fst (iter_peek script_pull
            (fst (iter_zip (new_Iter (of_array [Some (1::int), Some 2]))
                           (new_Iter (of_array ([] :: int option list)))))) = Some 1
   \<and> pk_source (iter (snd (iter_peek script_pull
            (fst (iter_zip (new_Iter (of_array [Some (1::int), Some 2]))
                           (new_Iter (of_array ([] :: int option list)))))))) =
       of_array [Some 2]"
  by (simp add: new_Iter_def of_array_def iter_next_def iter_peek_def iter_zip_def)

text \<open>
  C3, as amended. For every engine on which \<open>fuse()\<close> has been called: once a \<open>next()\<close>
  returns "end", and the result it pulled (if the engine was not yet dead) has the value
  \<open>undefined\<close> whenever it is \<open>done\<close>, the flag \<open>#fused.dead\<close> is set, and every later
  \<open>next()\<close> returns "end" and leaves the engine, its flag \<open>dead\<close> and its iterator as they
  are, whatever the iterator would produce.
\<close>

theorem fuse_sticky:
  assumes "called (fused e)"
    and "iter_next pull e = (Inr None, e')"
    and "dead (fused e) \<or> (rdone (fst (pull (iter e))) \<longrightarrow> rvalue (fst (pull (iter e))) = None)"
  shows "dead (fused e') \<and> next_calls pull n e' = (replicate n (Inr None), e')"
proof -
  have nc: "\<not> consumed e"
    using assms(2) by (auto simp: iter_next_def)
  have c': "\<not> consumed e'"
    using next_keeps_consumed [of pull e] assms(2) nc by simp
  have "dead (fused e')"
  proof (cases "dead (fused e)")
    case True
    with nc assms(2) show ?thesis by (simp add: next_dead)
  next
    case False
    obtain r s where p: "pull (iter e) = (r, s)" by (cases "pull (iter e)")
    from assms(3) False p have v: "rdone r \<longrightarrow> rvalue r = None" by simp
    from assms(2) have "rdone r \<or> rvalue r = None"
      using nc False by (auto simp: next_pulls [where pull = pull and e = e, OF _ _ p] split: if_splits)
    with v have "rvalue r = None" by blast
    with assms(1,2) nc False show ?thesis
      by (auto simp: next_pulls [where pull = pull and e = e, OF _ _ p])
  qed
  with c' show ?thesis by (simp add: next_calls_dead)
qed

text \<open>
  A fused engine over \<open>[1]\<close> followed by an iterator that resumes with 7: the second
  \<open>next()\<close> returns "end", and the three calls after it return "end" with the 7 unread.
\<close>

theorem fuse_sticky_witness:
  "called (fused (snd (iter_next script_pull (iter_fuse (new_Iter
       [IterResult (Some (1::int)) False, IterResult None True, IterResult (Some 7) False])))))
   \<and> iter_next script_pull
        (snd (iter_next script_pull (iter_fuse (new_Iter
           [IterResult (Some (1::int)) False, IterResult None True, IterResult (Some 7) False])))) =
       (Inr None,
        \<lparr>iter = [IterResult (Some 7) False], done_flag = True, consumed = False,
           fused = \<lparr>called = True, dead = True\<rparr>\<rparr>)
   \<and> next_calls script_pull 3
        \<lparr>iter = [IterResult (Some (7::int)) False], done_flag = True, consumed = False,
           fused = \<lparr>called = True, dead = True\<rparr>\<rparr> =
       ([Inr None, Inr None, Inr None],
        \<lparr>iter = [IterResult (Some 7) False], done_flag = True, consumed = False,
           fused = \<lparr>called = True, dead = True\<rparr>\<rparr>)"
proof -
  let ?e = "snd (iter_next script_pull (iter_fuse (new_Iter
       [IterResult (Some (1::int)) False, IterResult None True, IterResult (Some 7) False])))"
  let ?e' = "\<lparr>iter = [IterResult (Some (7::int)) False], done_flag = True, consumed = False,
           fused = \<lparr>called = True, dead = True\<rparr>\<rparr>"
  have h1: "called (fused ?e)"
    by (simp add: new_Iter_def iter_fuse_def iter_next_def next_unguarded_def)
  have h2: "iter_next script_pull ?e = (Inr None, ?e')"
    by (simp add: new_Iter_def iter_fuse_def iter_next_def next_unguarded_def)
  have h3: "dead (fused ?e) \<or>
            (rdone (fst (script_pull (iter ?e))) \<longrightarrow> rvalue (fst (script_pull (iter ?e))) = None)"
    by (simp add: new_Iter_def iter_fuse_def iter_next_def next_unguarded_def)
  from fuse_sticky [OF h1 h2 h3, of 3] h1 h2 show ?thesis
    by (simp add: numeral_3_eq_3)
qed

text \<open>
  C3 as stated fails on an iterator whose \<open>done\<close> result carries a value, as the result of
  a generator's \<open>return 5\<close> does: on the fused engine the first \<open>next()\<close> returns "end" and
  leaves \<open>#fused.dead\<close> unset, and the second \<open>next()\<close> pulls the iterator and returns 7.
\<close>

theorem fuse_sticky_counterexample:
  "fst (iter_next script_pull (iter_fuse (new_Iter
          [IterResult (Some (5::int)) True, IterResult (Some 7) False]))) = Inr None
   \<and> \<not> dead (fused (snd (iter_next script_pull (iter_fuse (new_Iter
          [IterResult (Some (5::int)) True, IterResult (Some 7) False])))))
   \<and> fst (iter_next script_pull (snd (iter_next script_pull (iter_fuse (new_Iter
          [IterResult (Some (5::int)) True, IterResult (Some 7) False]))))) = Inr (Some 7)"
  by (simp add: new_Iter_def iter_fuse_def iter_next_def next_unguarded_def)

text \<open>
  C10. Exhaustion is read off the pulled value, not off \<open>done\<close>: when \<open>fuse()\<close> has been
  called and the iterator returns a result that is not \<open>done\<close> and whose value is
  \<open>undefined\<close>, \<open>next()\<close> returns "end" and sets \<open>#fused.dead\<close>, and every later \<open>next()\<close>
  returns "end" and leaves the iterator \<open>s\<close>, with whatever it still holds, unread.
\<close>

theorem fuse_dead_on_undefined_value:
  assumes "called (fused e)" and "\<not> consumed e" and "\<not> dead (fused e)"
    and "pull (iter e) = (IterResult None False, s)"
  shows "iter_next pull e =
           (Inr None, e\<lparr>iter := s, done_flag := False, fused := (fused e)\<lparr>dead := True\<rparr>\<rparr>)
       \<and> dead (fused (snd (iter_next pull e)))
       \<and> next_calls pull n (snd (iter_next pull e)) =
           (replicate n (Inr None),
            e\<lparr>iter := s, done_flag := False, fused := (fused e)\<lparr>dead := True\<rparr>\<rparr>)"
proof -
  let ?e' = "e\<lparr>iter := s, done_flag := False, fused := (fused e)\<lparr>dead := True\<rparr>\<rparr>"
  have step: "iter_next pull e = (Inr None, ?e')"
    using assms by (simp add: next_pulls [where pull = pull and e = e, OF _ _ assms(4)])
  have "\<not> consumed ?e'" and "dead (fused ?e')"
    using assms by simp_all
  then have "next_calls pull n ?e' = (replicate n (Inr None), ?e')"
    by (rule next_calls_dead)
  with step show ?thesis by simp
qed

text \<open>
  The fused engine over \<open>[undefined, 1, 2]\<close>: the first \<open>next()\<close> returns "end", and so do
  the three after it, with 1 and 2 unread.
\<close>

theorem fuse_dead_on_undefined_value_witness:
  "called (fused (iter_fuse (new_Iter (of_array [None, Some (1::int), Some 2]))))
   \<and> \<not> consumed (iter_fuse (new_Iter (of_array [None, Some (1::int), Some 2])))
   \<and> \<not> dead (fused (iter_fuse (new_Iter (of_array [None, Some (1::int), Some 2]))))
   \<and> script_pull (iter (iter_fuse (new_Iter (of_array [None, Some (1::int), Some 2])))) =
       (IterResult None False, of_array [Some 1, Some 2])
   \<and> iter_next script_pull (iter_fuse (new_Iter (of_array [None, Some (1::int), Some 2]))) =
       (Inr None,
        \<lparr>iter = of_array [Some 1, Some 2], done_flag = False, consumed = False,
           fused = \<lparr>called = True, dead = True\<rparr>\<rparr>)
   \<and> next_calls script_pull 3
        (snd (iter_next script_pull (iter_fuse (new_Iter (of_array [None, Some (1::int), Some 2]))))) =
       ([Inr None, Inr None, Inr None],
        \<lparr>iter = of_array [Some 1, Some 2], done_flag = False, consumed = False,
           fused = \<lparr>called = True, dead = True\<rparr>\<rparr>)"
proof -
  let ?e = "iter_fuse (new_Iter (of_array [None, Some (1::int), Some 2]))"
  have h1: "called (fused ?e)" by (simp add: new_Iter_def iter_fuse_def)
  have h2: "\<not> consumed ?e" by (simp add: new_Iter_def iter_fuse_def)
  have h3: "\<not> dead (fused ?e)" by (simp add: new_Iter_def iter_fuse_def)
  have h4: "script_pull (iter ?e) = (IterResult None False, of_array [Some 1, Some 2])"
    by (simp add: new_Iter_def iter_fuse_def of_array_def)
  have r: "replicate 3 (Inr None :: error + int option) = [Inr None, Inr None, Inr None]"
    by (simp add: numeral_3_eq_3)
  note t = fuse_dead_on_undefined_value [where pull = script_pull and e = ?e and n = 3,
      OF h1 h2 h3 h4]
  have a: "iter_next script_pull ?e =
       (Inr None,
        \<lparr>iter = of_array [Some 1, Some 2], done_flag = False, consumed = False,
           fused = \<lparr>called = True, dead = True\<rparr>\<rparr>)"
    using t [THEN conjunct1] by (simp add: new_Iter_def iter_fuse_def)
  have b: "next_calls script_pull 3 (snd (iter_next script_pull ?e)) =
       ([Inr None, Inr None, Inr None],
        \<lparr>iter = of_array [Some 1, Some 2], done_flag = False, consumed = False,
           fused = \<lparr>called = True, dead = True\<rparr>\<rparr>)"
    using t [THEN conjunct2, THEN conjunct2] by (simp add: r new_Iter_def iter_fuse_def)
  from a b h1 h2 h3 h4 show ?thesis by blast
qed

section \<open>Properties of nth and advance_by\<close>

text \<open>One call of \<open>next()\<close> on an engine over the array \<open>xs\<close> on which \<open>fuse()\<close> has not
  been called.\<close>

lemma next_array:
  assumes "\<not> consumed e" and "fused e = \<lparr>called = False, dead = False\<rparr>"
    and "iter e = of_array xs"
  shows "iter_next script_pull e =
           (Inr (case xs of [] \<Rightarrow> None | x # ys \<Rightarrow> x),
            e\<lparr>iter := of_array (tl xs), done_flag := (xs = [])\<rparr>)"
  using assms by (cases xs) (simp_all add: iter_next_def next_unguarded_def of_array_def)

lemma next_calls_Suc_snd:
  "snd (next_calls pull (Suc n) e) = snd (next_calls pull n (snd (iter_next pull e)))"
  by (simp add: split_def Let_def)

lemma nth_loop_next_calls:
  "\<not> consumed e \<Longrightarrow> nth_loop pull k e = (Inr (), snd (next_calls pull k e))"
proof (induction k arbitrary: e)
  case 0
  then show ?case by simp
next
  case (Suc k)
  obtain r e1 where n: "iter_next pull e = (r, e1)" by (cases "iter_next pull e")
  with Suc.prems have c: "\<not> consumed e1" using next_keeps_consumed [of pull e] by simp
  from Suc.prems n obtain item where r: "r = Inr item"
    by (auto simp: iter_next_def split: prod.splits)
  show ?case using Suc.IH [OF c] n r by (simp add: next_calls_Suc_snd del: next_calls.simps)
qed

text \<open>Calls of \<open>next()\<close> on a readable engine over an array leave a readable engine over
  the rest of the array.\<close>

lemma next_array_engine:
  assumes "array_engine e xs"
  shows "fst (iter_next script_pull e) = Inr (case xs of [] \<Rightarrow> None | x # ys \<Rightarrow> x)
       \<and> array_engine (snd (iter_next script_pull e)) (tl xs)"
  using assms
  by (cases xs)
     (auto simp: array_engine_def iter_next_def next_unguarded_def of_array_def split: if_splits)

lemma next_calls_array_engine:
  "array_engine e xs \<Longrightarrow> array_engine (snd (next_calls script_pull k e)) (drop k xs)"
proof (induction k arbitrary: e xs)
  case 0
  then show ?case by simp
next
  case (Suc k)
  from next_array_engine [OF Suc.prems]
  have "array_engine (snd (iter_next script_pull e)) (tl xs)" by simp
  then have "array_engine (snd (next_calls script_pull k (snd (iter_next script_pull e))))
               (drop k (tl xs))"
    by (rule Suc.IH)
  then show ?case by (simp add: next_calls_Suc_snd drop_Suc del: next_calls.simps)
qed

text \<open>
  C9. \<open>nth(n)\<close> calls \<open>next()\<close> \<open>max(n - 1, 0)\<close> times and returns what the call after
  them returns. On an engine over the array \<open>xs\<close> (not consumed, not dead, and with no
  \<open>undefined\<close> element if \<open>fuse()\<close> has been called) it returns the element of index
  \<open>max(n - 1, 0)\<close>, or "end" when \<open>xs\<close> has no such element, and leaves the elements
  after that index. So \<open>nth(0)\<close> and \<open>nth(1)\<close> both return the first element of a
  non-empty \<open>xs\<close>.
\<close>

theorem nth_index:
  assumes "0 \<le> n" and "\<not> consumed e" and "\<not> dead (fused e)"
    and "called (fused e) \<longrightarrow> None \<notin> set xs" and "iter e = of_array xs"
  shows "iter_nth script_pull n e =
           iter_next script_pull (snd (next_calls script_pull (nat (max (n - 1) 0)) e))
       \<and> fst (iter_nth script_pull n e) =
           Inr (if nat (max (n - 1) 0) < length xs then xs ! nat (max (n - 1) 0) else None)
       \<and> iter (snd (iter_nth script_pull n e)) = of_array (drop (Suc (nat (max (n - 1) 0))) xs)
       \<and> (xs \<noteq> [] \<longrightarrow>
            fst (iter_nth script_pull 0 e) = Inr (hd xs) \<and>
            fst (iter_nth script_pull 1 e) = Inr (hd xs))"
proof -
  have ae: "array_engine e xs" using assms(2-5) by (simp add: array_engine_def)
  have k: "nat (max (n - 1) 0) = nat (n - 1)" by simp
  have step: "iter_nth script_pull m e =
      iter_next script_pull (snd (next_calls script_pull (nat (m - 1)) e))" if "0 \<le> m" for m
    using that assms(2) by (simp add: iter_nth_def nth_loop_next_calls)
  let ?k = "nat (n - 1)"
  let ?ek = "snd (next_calls script_pull ?k e)"
  note n = next_array_engine [OF next_calls_array_engine [OF ae, of ?k]]
  have v: "(case drop ?k xs of [] \<Rightarrow> None | x # ys \<Rightarrow> x) =
        (if ?k < length xs then xs ! ?k else None)"
    by (cases "drop ?k xs") (auto simp: hd_drop_conv_nth [symmetric])
  have i: "iter (snd (iter_next script_pull ?ek)) = of_array (drop (Suc ?k) xs)"
    using n by (simp add: array_engine_def tl_drop drop_Suc)
  have first: "fst (iter_nth script_pull m e) = Inr (hd xs)" if "xs \<noteq> []" "m = 0 \<or> m = 1" for m
  proof -
    from that(2) have "nat (m - 1) = 0" "0 \<le> m" by auto
    then show ?thesis
      using that(1) step [of m] next_array_engine [OF ae] by (cases xs) simp_all
  qed
  show ?thesis
    unfolding k using step [OF assms(1)] n v i first by simp
qed

text \<open>The fused engine over \<open>[1, 2, 3]\<close>: \<open>nth(2)\<close> returns 2 and leaves the 3, and \<open>nth(0)\<close>
  and \<open>nth(1)\<close> return 1.\<close>

theorem nth_index_witness:
  "(0::int) \<le> 2
   \<and> \<not> consumed (iter_fuse (new_Iter (of_array [Some (1::int), Some 2, Some 3])))
   \<and> \<not> dead (fused (iter_fuse (new_Iter (of_array [Some (1::int), Some 2, Some 3]))))
   \<and> called (fused (iter_fuse (new_Iter (of_array [Some (1::int), Some 2, Some 3]))))
   \<and> None \<notin> set [Some (1::int), Some 2, Some 3]
   \<and> iter (iter_fuse (new_Iter (of_array [Some (1::int), Some 2, Some 3]))) =
       of_array [Some 1, Some 2, Some 3]
   \<and> fst (iter_nth script_pull 2 (iter_fuse (new_Iter (of_array [Some (1::int), Some 2, Some 3])))) =
       Inr (Some 2)
   \<and> iter (snd (iter_nth script_pull 2
            (iter_fuse (new_Iter (of_array [Some (1::int), Some 2, Some 3]))))) =
       of_array [Some 3]
   \<and> [Some (1::int), Some 2, Some 3] \<noteq> []
   \<and> fst (iter_nth script_pull 0 (iter_fuse (new_Iter (of_array [Some (1::int), Some 2, Some 3])))) =
       Inr (Some 1)
   \<and> fst (iter_nth script_pull 1 (iter_fuse (new_Iter (of_array [Some (1::int), Some 2, Some 3])))) =
       Inr (Some 1)"
proof -
  let ?xs = "[Some (1::int), Some 2, Some 3]"
  let ?e = "iter_fuse (new_Iter (of_array ?xs))"
  have h1: "(0::int) \<le> 2" by simp
  have h2: "\<not> consumed ?e" by (simp add: new_Iter_def iter_fuse_def)
  have h3: "\<not> dead (fused ?e)" by (simp add: new_Iter_def iter_fuse_def)
  have c: "called (fused ?e)" by (simp add: new_Iter_def iter_fuse_def)
  have d: "None \<notin> set ?xs" by simp
  then have h4: "called (fused ?e) \<longrightarrow> None \<notin> set ?xs" by simp
  have h5: "iter ?e = of_array ?xs" by (simp add: new_Iter_def iter_fuse_def)
  note t = nth_index [OF h1 h2 h3 h4 h5]
  have a: "fst (iter_nth script_pull 2 ?e) = Inr (Some 2)"
    using t [THEN conjunct2, THEN conjunct1] by simp
  have b: "iter (snd (iter_nth script_pull 2 ?e)) = of_array [Some 3]"
    using t [THEN conjunct2, THEN conjunct2, THEN conjunct1] by simp
  have f: "fst (iter_nth script_pull 0 ?e) = Inr (Some 1) \<and>
           fst (iter_nth script_pull 1 ?e) = Inr (Some 1)"
    using t [THEN conjunct2, THEN conjunct2, THEN conjunct2] by simp
  from h1 h2 h3 c d h5 a b f show ?thesis by simp
qed

text \<open>
  \<open>advance_by(n)\<close> on a fresh engine over an array of \<open>m\<close> elements returns \<open>undefined\<close>
  for \<open>n \<le> m + 1\<close> and \<open>m + 1\<close> beyond: the test \<open>if (this.#done) return i\<close> runs
  before the call that the same round makes, so it sees "end" one round late and not at
  all in the last round.
\<close>

lemma advance_by_loop_array:
  assumes "\<not> consumed e" and "fused e = \<lparr>called = False, dead = False\<rparr>"
    and "iter e = of_array xs" and "\<not> done_flag e"
  shows "fst (advance_by_loop script_pull k i e) =
           Inr (if k \<le> Suc (length xs) then None else Some (i + Suc (length xs)))"
  using assms
proof (induction xs arbitrary: k i e)
  case Nil
  note n = next_array [OF Nil.prems(1-3)]
  show ?case
  proof (cases k)
    case 0
    then show ?thesis by simp
  next
    case (Suc k1)
    then show ?thesis using Nil.prems(4) n by (cases k1) simp_all
  qed
next
  case (Cons x xs)
  note n = next_array [OF Cons.prems(1-3)]
  let ?e1 = "e\<lparr>iter := of_array xs, done_flag := False\<rparr>"
  show ?case
  proof (cases k)
    case 0
    then show ?thesis by simp
  next
    case (Suc k1)
    have "fst (advance_by_loop script_pull k1 (Suc i) ?e1) =
           Inr (if k1 \<le> Suc (length xs) then None else Some (Suc i + Suc (length xs)))"
      using Cons.prems by (intro Cons.IH) simp_all
    then show ?thesis using Suc Cons.prems(4) n by simp
  qed
qed

lemma advance_by_array:
  "0 \<le> n \<Longrightarrow>
   fst (iter_advance_by script_pull n (new_Iter (of_array xs))) =
     Inr (if nat n \<le> Suc (length xs) then None else Some (Suc (length xs)))"
  using advance_by_loop_array [of "new_Iter (of_array xs)" xs "nat n" 0]
  by (simp add: iter_advance_by_def new_Iter_def)

lemma advance_by_negative: "n < 0 \<Longrightarrow> iter_advance_by pull n e = (Inl TypeError, e)"
  by (simp add: iter_advance_by_def)

text \<open>
  C6. With 2 elements left, \<open>advance_by(5)\<close> returns 3 where the claim gives 2, the
  number of elements passed, and \<open>advance_by(3)\<close> returns \<open>undefined\<close>, "fully advanced",
  where the claim gives 2.
\<close>

theorem advance_by_off_by_one:
  "fst (iter_advance_by script_pull 5 (new_Iter (of_array [Some (1::int), Some 2]))) =
     Inr (Some 3)
   \<and> fst (iter_advance_by script_pull 3 (new_Iter (of_array [Some (1::int), Some 2]))) =
     Inr None"
  by (simp add: advance_by_array)

section \<open>Properties of the operations on two engines\<close>

text \<open>\<open>zip\<close> and \<open>chain\<close> set \<open>#consumed\<close> on both operands when they are called.\<close>

lemma zip_consumes_both:
  "consumed (fst (iter_zip this other)) \<and> consumed (fst (snd (iter_zip this other)))"
  by (simp add: iter_zip_def)

lemma chain_consumes_both:
  "consumed (fst (iter_chain this other)) \<and> consumed (fst (snd (iter_chain this other)))"
  by (simp add: iter_chain_def)

text \<open>
  When \<open>eq_by\<close> and \<open>cmp_by\<close> leave their loop at its test, both operands are consumed
  whatever the result.
\<close>

lemma eq_by_loop_exit:
  "done_flag this \<or> done_flag other \<Longrightarrow>
   eq_by_loop pa pb (Suc k) eq this other =
     Some (Inr (done_flag this \<and> done_flag other),
           this\<lparr>consumed := True\<rparr>, other\<lparr>consumed := True\<rparr>)"
  by (auto simp: Let_def)

lemma cmp_by_loop_exit:
  "done_flag this \<or> done_flag other \<Longrightarrow>
   cmp_by_loop pa pb (Suc k) cmp this other =
     Some (Inr (if \<not> done_flag this then 1 else if \<not> done_flag other then - 1 else 0),
           this\<lparr>consumed := True\<rparr>, other\<lparr>consumed := True\<rparr>)"
  by (auto simp: Let_def)

text \<open>
  C4. \<open>eq_by\<close> and \<open>cmp_by\<close> return from inside their loop before the two assignments
  \<open>this.#consumed = true; other.#consumed = true\<close>. On \<open>[1]\<close> and \<open>[2]\<close>, \<open>eq_by\<close> with
  equality returns \<open>false\<close> and \<open>cmp_by\<close> with \<open>(a, b) => a - b\<close> returns \<open>-1\<close>, and both
  leave \<open>#consumed\<close> unset on both engines.
\<close>

theorem eq_by_early_return_not_consumed:
  "iter_eq_by script_pull script_pull 3
     (new_Iter (of_array [Some (1::int)])) (new_Iter (of_array [Some (2::int)])) (=) =
     Some (Inr False,
           \<lparr>iter = [], done_flag = False, consumed = False,
              fused = \<lparr>called = False, dead = False\<rparr>\<rparr>,
           \<lparr>iter = [], done_flag = False, consumed = False,
              fused = \<lparr>called = False, dead = False\<rparr>\<rparr>)
   \<and> iter_cmp_by script_pull script_pull 3
     (new_Iter (of_array [Some (1::int)])) (new_Iter (of_array [Some (2::int)])) subtract =
     Some (Inr (- 1),
           \<lparr>iter = [], done_flag = False, consumed = False,
              fused = \<lparr>called = False, dead = False\<rparr>\<rparr>,
           \<lparr>iter = [], done_flag = False, consumed = False,
              fused = \<lparr>called = False, dead = False\<rparr>\<rparr>)"
  by (simp add: iter_eq_by_def iter_cmp_by_def new_Iter_def of_array_def iter_next_def
      next_unguarded_def numeral_3_eq_3)


text \<open>
  Two fresh engines over arrays of which one is a strict prefix of the other. \<open>eq\<close> returns
  \<open>false\<close> whatever the comparison. \<open>cmp_by\<close> with the shorter array as \<open>this\<close>, and a
  comparator that returns 0 on equal elements, calls the comparator on \<open>undefined\<close> and the
  next element \<open>y\<close> of the longer array: it returns 0 when that call returns \<open>NaN\<close>, the
  sign of a result that is not 0, and \<open>-1\<close> when the call returns 0.
\<close>

lemma eq_by_shorter_self:
  assumes "\<not> consumed this" "fused this = \<lparr>called = False, dead = False\<rparr>"
    "iter this = of_array xs" "\<not> done_flag this"
    and "\<not> consumed other" "fused other = \<lparr>called = False, dead = False\<rparr>"
    "iter other = of_array (xs @ y # ys)" "\<not> done_flag other"
  shows "map_option fst (eq_by_loop script_pull script_pull (length xs + 2 + k) eq this other) =
           Some (Inr False)"
  using assms
proof (induction xs arbitrary: this other)
  case Nil
  note a = next_array [OF Nil.prems(1-3)]
  note b = next_array [OF Nil.prems(5-7)]
  show ?case using Nil.prems(4,8) a b by (simp add: Let_def)
next
  case (Cons x xs)
  note a = next_array [OF Cons.prems(1-3)]
  note b = next_array [OF Cons.prems(5-7)]
  let ?t = "this\<lparr>iter := of_array xs, done_flag := False\<rparr>"
  let ?o = "other\<lparr>iter := of_array (xs @ y # ys), done_flag := False\<rparr>"
  have ih: "map_option fst (eq_by_loop script_pull script_pull (length xs + 2 + k) eq ?t ?o) =
           Some (Inr False)"
    using Cons.prems by (intro Cons.IH) simp_all
  have fu: "length (x # xs) + 2 + k = Suc (length xs + 2 + k)" by simp
  show ?case
    unfolding fu using Cons.prems(4,8) a b ih
    by (subst eq_by_loop.simps) (simp del: eq_by_loop.simps)
qed

lemma eq_by_longer_self:
  assumes "\<not> consumed this" "fused this = \<lparr>called = False, dead = False\<rparr>"
    "iter this = of_array (xs @ y # ys)" "\<not> done_flag this"
    and "\<not> consumed other" "fused other = \<lparr>called = False, dead = False\<rparr>"
    "iter other = of_array xs" "\<not> done_flag other"
  shows "map_option fst (eq_by_loop script_pull script_pull (length xs + 2 + k) eq this other) =
           Some (Inr False)"
  using assms
proof (induction xs arbitrary: this other)
  case Nil
  note a = next_array [OF Nil.prems(1-3)]
  note b = next_array [OF Nil.prems(5-7)]
  show ?case using Nil.prems(4,8) a b by (simp add: Let_def)
next
  case (Cons x xs)
  note a = next_array [OF Cons.prems(1-3)]
  note b = next_array [OF Cons.prems(5-7)]
  let ?t = "this\<lparr>iter := of_array (xs @ y # ys), done_flag := False\<rparr>"
  let ?o = "other\<lparr>iter := of_array xs, done_flag := False\<rparr>"
  have ih: "map_option fst (eq_by_loop script_pull script_pull (length xs + 2 + k) eq ?t ?o) =
           Some (Inr False)"
    using Cons.prems by (intro Cons.IH) simp_all
  have fu: "length (x # xs) + 2 + k = Suc (length xs + 2 + k)" by simp
  show ?case
    unfolding fu using Cons.prems(4,8) a b ih
    by (subst eq_by_loop.simps) (simp del: eq_by_loop.simps)
qed

lemma eq_strict_prefix:
  "map_option fst (iter_eq script_pull script_pull (length xs + 2 + k) deepEqual
      (new_Iter (of_array xs)) (new_Iter (of_array (xs @ y # ys)))) = Some (Inr False)
   \<and> map_option fst (iter_eq script_pull script_pull (length xs + 2 + k) deepEqual
      (new_Iter (of_array (xs @ y # ys))) (new_Iter (of_array xs))) = Some (Inr False)"
  unfolding iter_eq_def iter_eq_by_def
  by (intro conjI eq_by_shorter_self eq_by_longer_self) (simp_all add: new_Iter_def)

lemma cmp_by_shorter_self:
  assumes "\<not> consumed this" "fused this = \<lparr>called = False, dead = False\<rparr>"
    "iter this = of_array xs" "\<not> done_flag this"
    and "\<not> consumed other" "fused other = \<lparr>called = False, dead = False\<rparr>"
    "iter other = of_array (xs @ y # ys)" "\<not> done_flag other"
    and "list_all (\<lambda>x. cmp x x = Num 0) xs"
  shows "map_option fst (cmp_by_loop script_pull script_pull (length xs + 2 + k) cmp this other) =
           Some (Inr (case cmp None y of NaN \<Rightarrow> 0 | Num v \<Rightarrow> if v = 0 then - 1 else sgn v))"
  using assms
proof (induction xs arbitrary: this other)
  case Nil
  note a = next_array [OF Nil.prems(1-3)]
  note b = next_array [OF Nil.prems(5-7)]
  show ?case using Nil.prems(4,8) a b
    by (cases "cmp None y") (simp_all add: Let_def)
next
  case (Cons x xs)
  note a = next_array [OF Cons.prems(1-3)]
  note b = next_array [OF Cons.prems(5-7)]
  let ?t = "this\<lparr>iter := of_array xs, done_flag := False\<rparr>"
  let ?o = "other\<lparr>iter := of_array (xs @ y # ys), done_flag := False\<rparr>"
  have ih: "map_option fst (cmp_by_loop script_pull script_pull (length xs + 2 + k) cmp ?t ?o) =
           Some (Inr (case cmp None y of NaN \<Rightarrow> 0 | Num v \<Rightarrow> if v = 0 then - 1 else sgn v))"
    using Cons.prems by (intro Cons.IH) simp_all
  have fu: "length (x # xs) + 2 + k = Suc (length xs + 2 + k)" by simp
  show ?case
    unfolding fu using Cons.prems(4,8,9) a b ih
    by (subst cmp_by_loop.simps) (simp del: cmp_by_loop.simps)
qed

lemma cmp_by_strict_prefix:
  "list_all (\<lambda>x. cmp x x = Num 0) xs \<Longrightarrow>
   map_option fst (iter_cmp_by script_pull script_pull (length xs + 2 + k)
      (new_Iter (of_array xs)) (new_Iter (of_array (xs @ y # ys))) cmp) =
     Some (Inr (case cmp None y of NaN \<Rightarrow> 0 | Num v \<Rightarrow> if v = 0 then - 1 else sgn v))"
  unfolding iter_cmp_by_def
  by (rule cmp_by_shorter_self) (simp_all add: new_Iter_def)

text \<open>
  C7. On \<open>[1, 2]\<close> against \<open>[1, 2, 3]\<close>, \<open>cmp_by\<close> with the comparator \<open>(a, b) => a - b\<close>
  returns 0 and not \<open>-1\<close>: the third round calls the comparator on \<open>undefined\<close>, the "end"
  of the shorter side, and 3, and the \<open>NaN\<close> it returns leaves the loop with 0 before
  the tests of \<open>#done\<close> after the loop are reached. With the longer array as \<open>this\<close> the
  result is 0 as well. \<open>eq\<close>, here with equality for \<open>deepEqual\<close>, returns \<open>false\<close> as claimed.
\<close>

theorem cmp_by_strict_prefix_subtract:
  "map_option fst (iter_cmp_by script_pull script_pull 4
     (new_Iter (of_array [Some (1::int), Some 2]))
     (new_Iter (of_array [Some (1::int), Some 2, Some 3])) subtract) = Some (Inr 0)
   \<and> map_option fst (iter_cmp_by script_pull script_pull 4
     (new_Iter (of_array [Some (1::int), Some 2, Some 3]))
     (new_Iter (of_array [Some (1::int), Some 2])) subtract) = Some (Inr 0)
   \<and> map_option fst (iter_eq script_pull script_pull 4 (=)
     (new_Iter (of_array [Some (1::int), Some 2]))
     (new_Iter (of_array [Some (1::int), Some 2, Some 3]))) = Some (Inr False)"
  by (simp add: iter_eq_def iter_eq_by_def iter_cmp_by_def new_Iter_def of_array_def
      iter_next_def next_unguarded_def eval_nat_numeral)

section \<open>Properties of skip_while\<close>

text \<open>
  The generator over a fresh engine on the array \<open>xs\<close>: its first pull yields the first
  element that fails the predicate, or \<open>undefined\<close> as an element when there is none, and
  its later pulls yield the elements after that one.
\<close>

lemma skip_while_scan_array:
  "skip_while_scan p (fst (script_pull (of_array xs))) (snd (script_pull (of_array xs))) =
     (case dropWhile p xs of
        [] \<Rightarrow> (IterResult None True, [])
      | y # ys \<Rightarrow> (IterResult y False, of_array ys))"
proof (induction xs)
  case Nil
  show ?case by (simp add: of_array_def skip_while_scan.simps)
next
  case (Cons x xs)
  show ?case
  proof (cases "p x")
    case True
    have "skip_while_scan p (fst (script_pull (of_array (x # xs)))) (snd (script_pull (of_array (x # xs)))) =
          skip_while_scan p (fst (script_pull (of_array xs))) (snd (script_pull (of_array xs)))"
      using True by (subst skip_while_scan.simps) (simp add: of_array_def)
    with Cons True show ?thesis by simp
  next
    case False
    then show ?thesis by (subst skip_while_scan.simps) (simp add: of_array_def)
  qed
qed

lemma skip_while_first_pull:
  assumes "iter e = of_array xs"
  shows "skip_while_pull p \<lparr>sw_this = e, sw_pc = SkipStart\<rparr> =
     (case dropWhile p xs of
        [] \<Rightarrow> (IterResult None False,
               \<lparr>sw_this = e\<lparr>consumed := False, iter := []\<rparr>, sw_pc = SkipYieldedFirst\<rparr>)
      | y # ys \<Rightarrow> (IterResult y False,
               \<lparr>sw_this = e\<lparr>consumed := False, iter := of_array ys\<rparr>, sw_pc = SkipYieldedFirst\<rparr>))"
proof (cases "dropWhile p xs")
  case Nil
  then show ?thesis
    using assms skip_while_scan_array [of p xs]
    by (simp add: skip_while_pull_def split_def Let_def del: dropWhile_eq_Nil_conv)
next
  case (Cons y ys)
  then show ?thesis
    using assms skip_while_scan_array [of p xs]
    by (simp add: skip_while_pull_def split_def Let_def)
qed

lemma skip_while_later_pull:
  assumes "iter e = of_array ys" and "fused e = \<lparr>called = False, dead = False\<rparr>"
    and "pc = SkipYieldedFirst \<or> (pc = SkipYieldedItem \<and> \<not> done_flag e)"
  shows "skip_while_pull p \<lparr>sw_this = e, sw_pc = pc\<rparr> =
     (case ys of
        [] \<Rightarrow> (IterResult None True,
               \<lparr>sw_this = e\<lparr>consumed := True, iter := [], done_flag := True\<rparr>,
                  sw_pc = SkipReturned\<rparr>)
      | z # zs \<Rightarrow> (IterResult z False,
               \<lparr>sw_this = e\<lparr>consumed := True, iter := of_array zs, done_flag := False\<rparr>,
                  sw_pc = SkipYieldedItem\<rparr>))"
  using assms
  by (cases ys)
     (auto simp: skip_while_pull_def skip_while_round_def next_unguarded_def of_array_def)

lemma collect_loop_skip_while:
  assumes "iter e = of_array ys" and "fused e = \<lparr>called = False, dead = False\<rparr>"
    and "pc = SkipYieldedFirst \<or> (pc = SkipYieldedItem \<and> \<not> done_flag e)"
  shows "map_option fst
           (collect_loop (skip_while_pull p) (Suc (Suc (length ys)) + k) acc
              \<lparr>iter = \<lparr>sw_this = e, sw_pc = pc\<rparr>, done_flag = False, consumed = False,
                 fused = \<lparr>called = False, dead = False\<rparr>\<rparr>) =
         Some (Inr (acc @ ys @ [None]))"
  using assms
proof (induction ys arbitrary: e pc acc)
  case Nil
  note g = skip_while_later_pull [OF Nil.prems, of p]
  show ?case using g by (simp add: iter_next_def next_unguarded_def)
next
  case (Cons z zs)
  note g = skip_while_later_pull [OF Cons.prems, of p]
  let ?e1 = "e\<lparr>consumed := True, iter := of_array zs, done_flag := False\<rparr>"
  have "map_option fst
           (collect_loop (skip_while_pull p) (Suc (Suc (length zs)) + k) (acc @ [z])
              \<lparr>iter = \<lparr>sw_this = ?e1, sw_pc = SkipYieldedItem\<rparr>, done_flag = False,
                 consumed = False, fused = \<lparr>called = False, dead = False\<rparr>\<rparr>) =
         Some (Inr ((acc @ [z]) @ zs @ [None]))"
    using Cons.prems by (intro Cons.IH) simp_all
  then show ?case using g by (simp add: iter_next_def next_unguarded_def)
qed

lemma collect_from_loop:
  "map_option fst (collect_loop pull fuel [] e) = Some (Inr result) \<Longrightarrow>
   map_option fst (iter_collect pull fuel e) = Some (Inr (butlast result))"
  by (cases "collect_loop pull fuel [] e") (auto simp: iter_collect_def split: sum.splits)

text \<open>
  \<open>collect()\<close> on \<open>skip_while(p)\<close> of an array \<open>xs\<close> returns the suffix of \<open>xs\<close> from the
  first element that fails \<open>p\<close> when there is one, and \<open>[undefined]\<close> when there is none.
\<close>

lemma collect_skip_while_array:
  "map_option fst
     (iter_collect (skip_while_pull p) (length xs + 3 + k)
        (snd (iter_skip_while p (new_Iter (of_array xs))))) =
   Some (Inr (if dropWhile p xs = [] then [None] else dropWhile p xs))"
proof -
  let ?e = "(new_Iter (of_array xs))\<lparr>consumed := True\<rparr>"
  let ?E = "\<lparr>iter = \<lparr>sw_this = ?e, sw_pc = SkipStart\<rparr>, done_flag = False, consumed = False,
               fused = \<lparr>called = False, dead = False\<rparr>\<rparr>"
  have E: "snd (iter_skip_while p (new_Iter (of_array xs))) = ?E"
    by (simp add: iter_skip_while_def new_Iter_def)
  have i: "iter ?e = of_array xs" by (simp add: new_Iter_def)
  note first = skip_while_first_pull [OF i, of p]
  have fu: "length xs + 3 + k = Suc (length xs + 2 + k)" by simp
  show ?thesis
  proof (cases "dropWhile p xs")
    case Nil
    let ?e1 = "?e\<lparr>consumed := False, iter := []\<rparr>"
    have l: "map_option fst
           (collect_loop (skip_while_pull p) (Suc (Suc (length ([] :: 'a option list))) + (length xs + k))
              [None]
              \<lparr>iter = \<lparr>sw_this = ?e1, sw_pc = SkipYieldedFirst\<rparr>, done_flag = False,
                 consumed = False, fused = \<lparr>called = False, dead = False\<rparr>\<rparr>) =
         Some (Inr ([None] @ [] @ [None]))"
      by (intro collect_loop_skip_while) (simp_all add: new_Iter_def of_array_def)
    have "map_option fst (collect_loop (skip_while_pull p) (length xs + 3 + k) [] ?E) =
          Some (Inr [None, None])"
      unfolding fu using first Nil l by (simp add: iter_next_def next_unguarded_def of_array_def)
    then have "map_option fst (iter_collect (skip_while_pull p) (length xs + 3 + k) ?E) =
          Some (Inr (butlast [None, None]))"
      by (rule collect_from_loop)
    then show ?thesis unfolding E using Nil by simp
  next
    case (Cons y ys)
    let ?e1 = "?e\<lparr>consumed := False, iter := of_array ys\<rparr>"
    have le: "length ys < length xs"
      using length_dropWhile_le [of p xs] Cons by simp
    define d where "d = length xs - length ys + k"
    with le have d: "length xs + 2 + k = Suc (Suc (length ys)) + d" by simp
    have l: "map_option fst
           (collect_loop (skip_while_pull p) (Suc (Suc (length ys)) + d) [y]
              \<lparr>iter = \<lparr>sw_this = ?e1, sw_pc = SkipYieldedFirst\<rparr>, done_flag = False,
                 consumed = False, fused = \<lparr>called = False, dead = False\<rparr>\<rparr>) =
         Some (Inr ([y] @ ys @ [None]))"
      by (intro collect_loop_skip_while) (simp_all add: new_Iter_def)
    have "map_option fst (collect_loop (skip_while_pull p) (length xs + 3 + k) [] ?E) =
          Some (Inr (y # ys @ [None]))"
      unfolding fu d using first Cons l by (simp add: iter_next_def next_unguarded_def)
    then have "map_option fst (iter_collect (skip_while_pull p) (length xs + 3 + k) ?E) =
          Some (Inr (butlast (y # ys @ [None])))"
      by (rule collect_from_loop)
    then show ?thesis unfolding E using Cons by (simp add: butlast_append)
  qed
qed

text \<open>
  C8. When every element passes the predicate, or the array is empty, the sequence that
  \<open>skip_while\<close> returns is not empty: its generator yields \<open>item.value\<close> of the \<open>done\<close>
  result, so the new engine has one element \<open>undefined\<close>. On \<open>[1, 2]\<close> with \<open>x => x < 4\<close>,
  \<open>collect()\<close> returns \<open>[undefined]\<close> and the generator's results are
  \<open>{value: undefined, done: false}\<close> and then \<open>{value: undefined, done: true}\<close>; on \<open>[]\<close>,
  \<open>count()\<close> returns 1. On \<open>[1, 2, 5, 1, 2]\<close> \<open>collect()\<close> returns \<open>[5, 1, 2]\<close>, the suffix
  as claimed.
\<close>

theorem skip_while_all_skipped_yields_undefined:
  "map_option fst
     (iter_collect (skip_while_pull below4) 3
        (snd (iter_skip_while below4 (new_Iter (of_array [Some 1, Some 2]))))) =
     Some (Inr [None])
   \<and> map_option fst
     (iter_count (skip_while_pull below4) 3
        (snd (iter_skip_while below4 (new_Iter (of_array []))))) =
     Some (Inr 1)
   \<and> pulls (skip_while_pull below4) 2
        (iter (snd (iter_skip_while below4 (new_Iter (of_array [Some 1, Some 2]))))) =
     [IterResult None False, IterResult None True]
   \<and> map_option fst
     (iter_collect (skip_while_pull below4) 5
        (snd (iter_skip_while below4
                (new_Iter (of_array [Some 1, Some 2, Some 5, Some 1, Some 2]))))) =
     Some (Inr [Some 5, Some 1, Some 2])"
  by (simp add: iter_collect_def iter_count_def iter_skip_while_def skip_while_pull_def
      skip_while_round_def skip_while_scan.simps below4_def new_Iter_def of_array_def
      iter_next_def next_unguarded_def eval_nat_numeral)

section \<open>Properties of the terminal operations\<close>

text \<open>
  On a fresh engine over an array \<open>xs\<close>, \<open>fold\<close> and \<open>collect\<close> end when the fuel exceeds the
  length of \<open>xs\<close> by one and by two: \<open>fold\<close> returns the fold of \<open>f\<close> over \<open>xs\<close>, and
  \<open>collect\<close> returns \<open>xs\<close>.
\<close>

lemma fold_loop_array:
  assumes "fused e = \<lparr>called = False, dead = False\<rparr>" and "iter e = of_array xs"
  shows "map_option fst (fold_loop script_pull (Suc (length xs) + k) f init e) =
           Some (Inr (foldl f init xs))"
  using assms
proof (induction xs arbitrary: init e)
  case Nil
  then show ?case by (simp add: iter_next_def next_unguarded_def of_array_def)
next
  case (Cons x xs)
  let ?e1 = "e\<lparr>consumed := True, iter := of_array xs, done_flag := False\<rparr>"
  have "map_option fst (fold_loop script_pull (Suc (length xs) + k) f (f init x) ?e1) =
           Some (Inr (foldl f (f init x) xs))"
    using Cons.prems by (intro Cons.IH) simp_all
  moreover have "iter_next script_pull (e\<lparr>consumed := False\<rparr>) =
      (Inr x, e\<lparr>consumed := False, iter := of_array xs, done_flag := False\<rparr>)"
    using Cons.prems by (simp add: iter_next_def next_unguarded_def of_array_def)
  ultimately show ?case by (simp add: Let_def)
qed

lemma fold_array:
  "map_option fst (iter_fold script_pull (Suc (length xs) + k) init f (new_Iter (of_array xs))) =
     Some (Inr (foldl f init xs))"
  unfolding iter_fold_def by (rule fold_loop_array) (simp_all add: new_Iter_def)

lemma collect_loop_array:
  assumes "\<not> consumed e" and "fused e = \<lparr>called = False, dead = False\<rparr>"
    and "iter e = of_array xs" and "\<not> done_flag e"
  shows "map_option fst (collect_loop script_pull (Suc (Suc (length xs)) + k) acc e) =
           Some (Inr (acc @ xs @ [None]))"
  using assms
proof (induction xs arbitrary: acc e)
  case Nil
  note n = next_array [OF Nil.prems(1-3)]
  show ?case using Nil.prems(4) n by simp
next
  case (Cons x xs)
  note n = next_array [OF Cons.prems(1-3)]
  let ?e1 = "e\<lparr>iter := of_array xs, done_flag := False\<rparr>"
  have "map_option fst (collect_loop script_pull (Suc (Suc (length xs)) + k) (acc @ [x]) ?e1) =
           Some (Inr ((acc @ [x]) @ xs @ [None]))"
    using Cons.prems by (intro Cons.IH) simp_all
  then show ?case using Cons.prems(4) n by simp
qed

lemma collect_array:
  "map_option fst (iter_collect script_pull (length xs + 2 + k) (new_Iter (of_array xs))) =
     Some (Inr xs)"
proof -
  have "map_option fst
          (collect_loop script_pull (Suc (Suc (length xs)) + k) [] (new_Iter (of_array xs))) =
        Some (Inr ([] @ xs @ [None]))"
    by (rule collect_loop_array) (simp_all add: new_Iter_def)
  then have "map_option fst
          (iter_collect script_pull (Suc (Suc (length xs)) + k) (new_Iter (of_array xs))) =
        Some (Inr (butlast ([] @ xs @ [None])))"
    by (rule collect_from_loop)
  then show ?thesis by (simp add: butlast_append)
qed

text \<open>
  \<open>next()\<close> throws only on a consumed engine, and the loops that clear \<open>#consumed\<close> before
  the call set it again after it.
\<close>

lemma next_unconsumed:
  "\<not> consumed e \<Longrightarrow> \<exists>item e1. iter_next pull e = (Inr item, e1) \<and> \<not> consumed e1"
  using next_keeps_consumed [of pull e]
  by (cases "iter_next pull e") (auto simp: iter_next_def split: prod.splits)

lemma next_throws_consumed:
  "iter_next pull e = (Inl err, e1) \<Longrightarrow> consumed e1 \<and> err = ReferenceError"
  by (auto simp: iter_next_def split: if_splits prod.splits)

lemma fold_loop_consumed:
  "fold_loop pull k f init e = Some (r, e') \<Longrightarrow> consumed e'"
proof (induction k arbitrary: init e)
  case 0
  then show ?case by simp
next
  case (Suc k)
  obtain item e1 where n: "iter_next pull (e\<lparr>consumed := False\<rparr>) = (Inr item, e1)"
    using next_unconsumed [of "e\<lparr>consumed := False\<rparr>" pull] by auto
  show ?case
  proof (cases "done_flag e1")
    case True
    with Suc.prems n show ?thesis by auto
  next
    case False
    with Suc.prems n have "fold_loop pull k f (f init item) (e1\<lparr>consumed := True\<rparr>) = Some (r, e')"
      by simp
    then show ?thesis by (rule Suc.IH)
  qed
qed

lemma for_each_loop_consumed:
  "for_each_loop pull k f w e = Some (r, e') \<Longrightarrow> consumed e'"
proof (induction k arbitrary: w e)
  case 0
  then show ?case by simp
next
  case (Suc k)
  obtain item e1 where n: "iter_next pull (e\<lparr>consumed := False\<rparr>) = (Inr item, e1)"
    using next_unconsumed [of "e\<lparr>consumed := False\<rparr>" pull] by auto
  show ?case
  proof (cases "done_flag e1")
    case True
    with Suc.prems n show ?thesis by auto
  next
    case False
    with Suc.prems n have "for_each_loop pull k f (f item w) (e1\<lparr>consumed := True\<rparr>) = Some (r, e')"
      by simp
    then show ?thesis by (rule Suc.IH)
  qed
qed

lemma reduce_loop_consumed:
  "reduce_loop pull k f init e = Some (r, e') \<Longrightarrow> consumed e'"
proof (induction k arbitrary: init e)
  case 0
  then show ?case by simp
next
  case (Suc k)
  obtain item e1 where n: "iter_next pull (e\<lparr>consumed := False\<rparr>) = (Inr item, e1)"
    using next_unconsumed [of "e\<lparr>consumed := False\<rparr>" pull] by auto
  show ?case
  proof (cases "done_flag e1")
    case True
    with Suc.prems n show ?thesis by auto
  next
    case False
    with Suc.prems n have "reduce_loop pull k f (f init item) (e1\<lparr>consumed := True\<rparr>) = Some (r, e')"
      by simp
    then show ?thesis by (rule Suc.IH)
  qed
qed

lemma collect_loop_throws:
  "collect_loop pull k acc e = Some (Inl err, e') \<Longrightarrow> consumed e'"
proof (induction k arbitrary: acc e)
  case 0
  then show ?case by simp
next
  case (Suc k)
  show ?case
  proof (cases "iter_next pull e")
    case (Pair r e1)
    show ?thesis
    proof (cases r)
      case (Inl a)
      with Suc.prems Pair show ?thesis
        using next_throws_consumed [of pull e a e1] by (auto split: if_splits)
    next
      case (Inr item)
      with Suc.prems Pair have "collect_loop pull k (acc @ [item]) e1 = Some (Inl err, e')"
        by (auto split: if_splits)
      then show ?thesis by (rule Suc.IH)
    qed
  qed
qed

lemma partition_loop_throws:
  "partition_loop pull k f res e = Some (Inl err, e') \<Longrightarrow> consumed e'"
proof (induction k arbitrary: res e)
  case 0
  then show ?case by simp
next
  case (Suc k)
  show ?case
  proof (cases "iter_next pull e")
    case (Pair r e1)
    show ?thesis
    proof (cases r)
      case (Inl a)
      with Suc.prems Pair show ?thesis
        using next_throws_consumed [of pull e a e1] by auto
    next
      case (Inr item)
      with Suc.prems Pair obtain res1 where
        "partition_loop pull k f res1 e1 = Some (Inl err, e')"
        by (auto simp: Let_def split: if_splits)
      then show ?thesis by (rule Suc.IH)
    qed
  qed
qed

lemma fold_consumed: "iter_fold pull fuel init f e = Some (r, e') \<Longrightarrow> consumed e'"
  unfolding iter_fold_def by (rule fold_loop_consumed)

lemma for_each_consumed: "iter_for_each pull fuel f w e = Some (r, e') \<Longrightarrow> consumed e'"
  unfolding iter_for_each_def by (rule for_each_loop_consumed)

lemma collect_consumed: "iter_collect pull fuel e = Some (r, e') \<Longrightarrow> consumed e'"
  using collect_loop_throws [of pull fuel "[]" e]
  by (auto simp: iter_collect_def split: option.splits sum.splits prod.splits)

lemma count_consumed: "iter_count pull fuel e = Some (r, e') \<Longrightarrow> consumed e'"
  using collect_consumed [of pull fuel e]
  by (auto simp: iter_count_def split: option.splits sum.splits prod.splits)

lemma partition_consumed: "iter_partition pull fuel f e = Some (r, e') \<Longrightarrow> consumed e'"
  using partition_loop_throws [of pull fuel f "([], [])" e]
  by (auto simp: iter_partition_def split: option.splits sum.splits prod.splits)

lemma reduce_consumed:
  "\<not> done_flag e \<Longrightarrow> iter_reduce pull fuel f e = Some (r, e') \<Longrightarrow> consumed e'"
  using reduce_loop_consumed [of pull fuel f] next_throws_consumed [of pull e]
  by (auto simp: iter_reduce_def split: sum.splits prod.splits)

text \<open>
  \<open>find\<close> returns what \<open>next()\<close> on the engine of \<open>filter\<close> returns, for any iterator \<open>p\<close>
  that answers the first pull as the generator does.
\<close>

lemma find_is_filter_next:
  assumes "filter_pull pull fuel f (iter (snd (iter_filter f this))) = Some (r, g)"
    and "p (iter (snd (iter_filter f this))) = (r, g)"
  shows "iter_find pull fuel f this =
           Some (fst (iter_next p (snd (iter_filter f this))), fl_this g)"
  using assms
  by (simp add: iter_find_def iter_filter_def new_Iter_def iter_next_def next_unguarded_def)

text \<open>
  C5, as amended. Whenever one of the terminal operations \<open>fold\<close>, \<open>for_each\<close>, \<open>collect\<close>,
  \<open>count\<close>, \<open>partition\<close>, \<open>sum\<close> and \<open>product\<close> ends, by returning or by throwing, and whenever
  \<open>reduce\<close> called on an engine whose \<open>#done\<close> is not set ends, the engine it leaves is
  consumed, and a later \<open>next()\<close> on it fails with \<open>ReferenceError\<close>.
\<close>

theorem terminal_operations_consume:
  "(iter_fold pull fuel init f e = Some (r1, e1) \<longrightarrow>
      consumed e1 \<and> iter_next pull e1 = (Inl ReferenceError, e1))
   \<and> (iter_for_each pull fuel g w e = Some (r2, e2) \<longrightarrow>
      consumed e2 \<and> iter_next pull e2 = (Inl ReferenceError, e2))
   \<and> (iter_collect pull fuel e = Some (r3, e3) \<longrightarrow>
      consumed e3 \<and> iter_next pull e3 = (Inl ReferenceError, e3))
   \<and> (iter_count pull fuel e = Some (r4, e4) \<longrightarrow>
      consumed e4 \<and> iter_next pull e4 = (Inl ReferenceError, e4))
   \<and> (iter_partition pull fuel p e = Some (r5, e5) \<longrightarrow>
      consumed e5 \<and> iter_next pull e5 = (Inl ReferenceError, e5))
   \<and> (iter_sum pull fuel toNumber e = Some (r6, e6) \<longrightarrow>
      consumed e6 \<and> iter_next pull e6 = (Inl ReferenceError, e6))
   \<and> (iter_product pull fuel toNumber' e = Some (r7, e7) \<longrightarrow>
      consumed e7 \<and> iter_next pull e7 = (Inl ReferenceError, e7))
   \<and> (\<not> done_flag e \<and> iter_reduce pull fuel h e = Some (r8, e8) \<longrightarrow>
      consumed e8 \<and> iter_next pull e8 = (Inl ReferenceError, e8))"
proof -
  have a: "iter_fold pull fuel init f e = Some (r1, e1) \<longrightarrow> consumed e1"
    by (auto dest: fold_consumed)
  have b: "iter_for_each pull fuel g w e = Some (r2, e2) \<longrightarrow> consumed e2"
    by (auto dest: for_each_consumed)
  have c: "iter_collect pull fuel e = Some (r3, e3) \<longrightarrow> consumed e3"
    by (auto dest: collect_consumed)
  have d: "iter_count pull fuel e = Some (r4, e4) \<longrightarrow> consumed e4"
    by (auto dest: count_consumed)
  have p: "iter_partition pull fuel p e = Some (r5, e5) \<longrightarrow> consumed e5"
    by (auto dest: partition_consumed)
  have s: "iter_sum pull fuel toNumber e = Some (r6, e6) \<longrightarrow> consumed e6"
    unfolding iter_sum_def by (auto dest: fold_consumed)
  have t: "iter_product pull fuel toNumber' e = Some (r7, e7) \<longrightarrow> consumed e7"
    unfolding iter_product_def by (auto dest: fold_consumed)
  have u: "\<not> done_flag e \<and> iter_reduce pull fuel h e = Some (r8, e8) \<longrightarrow> consumed e8"
    by (auto dest: reduce_consumed)
  from a b c d p s t u show ?thesis by (simp add: next_consumed)
qed


text \<open>
  The array \<open>[1, 2]\<close>: each of the eight operations returns and leaves the same engine,
  exhausted and consumed, on which \<open>next()\<close> throws.
\<close>

theorem terminal_operations_consume_witness:
  "iter_fold script_pull 4 (0::int) (\<lambda>acc item. acc + (case item of None \<Rightarrow> 0 | Some v \<Rightarrow> v))
     (new_Iter (of_array [Some (1::int), Some 2])) =
     Some (Inr 3, \<lparr>iter = [], done_flag = True, consumed = True,
                     fused = \<lparr>called = False, dead = False\<rparr>\<rparr>)
   \<and> iter_for_each script_pull 4 (\<lambda>item w. w @ [item]) []
     (new_Iter (of_array [Some (1::int), Some 2])) =
     Some (Inr [Some 1, Some 2], \<lparr>iter = [], done_flag = True, consumed = True,
                     fused = \<lparr>called = False, dead = False\<rparr>\<rparr>)
   \<and> iter_collect script_pull 4 (new_Iter (of_array [Some (1::int), Some 2])) =
     Some (Inr [Some 1, Some 2], \<lparr>iter = [], done_flag = True, consumed = True,
                     fused = \<lparr>called = False, dead = False\<rparr>\<rparr>)
   \<and> iter_count script_pull 4 (new_Iter (of_array [Some (1::int), Some 2])) =
     Some (Inr 2, \<lparr>iter = [], done_flag = True, consumed = True,
                     fused = \<lparr>called = False, dead = False\<rparr>\<rparr>)
   \<and> iter_partition script_pull 4 below4 (new_Iter (of_array [Some (1::int), Some 2])) =
     Some (Inr ([Some 1, Some 2], []), \<lparr>iter = [], done_flag = True, consumed = True,
                     fused = \<lparr>called = False, dead = False\<rparr>\<rparr>)
   \<and> iter_sum script_pull 4 (\<lambda>item. case item of None \<Rightarrow> (0::int) | Some v \<Rightarrow> v)
     (new_Iter (of_array [Some (1::int), Some 2])) =
     Some (Inr 3, \<lparr>iter = [], done_flag = True, consumed = True,
                     fused = \<lparr>called = False, dead = False\<rparr>\<rparr>)
   \<and> iter_product script_pull 4 (\<lambda>item. case item of None \<Rightarrow> (0::int) | Some v \<Rightarrow> v)
     (new_Iter (of_array [Some (1::int), Some 2])) =
     Some (Inr 2, \<lparr>iter = [], done_flag = True, consumed = True,
                     fused = \<lparr>called = False, dead = False\<rparr>\<rparr>)
   \<and> \<not> done_flag (new_Iter (of_array [Some (1::int), Some 2]))
   \<and> iter_reduce script_pull 4 (\<lambda>a b. b) (new_Iter (of_array [Some (1::int), Some 2])) =
     Some (Inr (Some 2), \<lparr>iter = [], done_flag = True, consumed = True,
                     fused = \<lparr>called = False, dead = False\<rparr>\<rparr>)
   \<and> consumed \<lparr>iter = ([] :: int iter_result list), done_flag = True, consumed = True,
                     fused = \<lparr>called = False, dead = False\<rparr>\<rparr>
   \<and> iter_next script_pull
         \<lparr>iter = ([] :: int iter_result list), done_flag = True, consumed = True,
                     fused = \<lparr>called = False, dead = False\<rparr>\<rparr> =
       (Inl ReferenceError,
        \<lparr>iter = [], done_flag = True, consumed = True,
                     fused = \<lparr>called = False, dead = False\<rparr>\<rparr>)"
proof -
  let ?e = "new_Iter (of_array [Some (1::int), Some 2])"
  let ?E = "\<lparr>iter = ([] :: int iter_result list), done_flag = True, consumed = True,
                     fused = \<lparr>called = False, dead = False\<rparr>\<rparr>"
  let ?f = "\<lambda>acc item. acc + (case item of None \<Rightarrow> (0::int) | Some v \<Rightarrow> v)"
  let ?g = "\<lambda>(item :: int option) w. w @ [item]"
  let ?n = "\<lambda>item. case item of None \<Rightarrow> (0::int) | Some v \<Rightarrow> v"
  let ?h = "\<lambda>(a :: int option) (b :: int option). b"
  note defs = new_Iter_def of_array_def iter_next_def next_unguarded_def eval_nat_numeral
  have h1: "iter_fold script_pull 4 0 ?f ?e = Some (Inr 3, ?E)"
    by (simp add: iter_fold_def defs)
  have h2: "iter_for_each script_pull 4 ?g [] ?e = Some (Inr [Some 1, Some 2], ?E)"
    by (simp add: iter_for_each_def defs)
  have h3: "iter_collect script_pull 4 ?e = Some (Inr [Some 1, Some 2], ?E)"
    by (simp add: iter_collect_def defs)
  have h4: "iter_count script_pull 4 ?e = Some (Inr 2, ?E)"
    by (simp add: iter_count_def iter_collect_def defs)
  have h5: "iter_partition script_pull 4 below4 ?e = Some (Inr ([Some 1, Some 2], []), ?E)"
    by (simp add: iter_partition_def below4_def defs)
  have h6: "iter_sum script_pull 4 ?n ?e = Some (Inr 3, ?E)"
    by (simp add: iter_sum_def iter_fold_def defs)
  have h7: "iter_product script_pull 4 ?n ?e = Some (Inr 2, ?E)"
    by (simp add: iter_product_def iter_fold_def defs)
  have h8: "\<not> done_flag ?e \<and> iter_reduce script_pull 4 ?h ?e = Some (Inr (Some 2), ?E)"
    by (simp add: iter_reduce_def defs)
  note t = terminal_operations_consume [where pull = script_pull and fuel = 4 and e = ?e
      and init = 0 and f = ?f and ?r1.0 = "Inr 3" and ?e1.0 = ?E
      and g = ?g and w = "[]" and ?r2.0 = "Inr [Some 1, Some 2]" and ?e2.0 = ?E
      and ?r3.0 = "Inr [Some 1, Some 2]" and ?e3.0 = ?E
      and ?r4.0 = "Inr 2" and ?e4.0 = ?E
      and p = below4 and ?r5.0 = "Inr ([Some 1, Some 2], [])" and ?e5.0 = ?E
      and toNumber = ?n and ?r6.0 = "Inr 3" and ?e6.0 = ?E
      and toNumber' = ?n and ?r7.0 = "Inr 2" and ?e7.0 = ?E
      and h = ?h and ?r8.0 = "Inr (Some 2)" and ?e8.0 = ?E]
  from t h1 have "consumed ?E \<and> iter_next script_pull ?E = (Inl ReferenceError, ?E)"
    by blast
  with h1 h2 h3 h4 h5 h6 h7 h8 show ?thesis by blast
qed

text \<open>
  C5 as stated fails. On \<open>[1, 2, 3]\<close>, \<open>all\<close> with a predicate that holds, \<open>any\<close> with one
  that fails and \<open>last\<close> drain the engine and leave \<open>#consumed\<close> unset: the \<open>next()\<close> after
  them returns "end". \<open>position\<close> with a predicate that the first element passes returns
  0 and the \<open>next()\<close> after it returns 2. \<open>reduce\<close> on an engine whose \<open>#done\<close> is set returns
  \<open>undefined\<close> and leaves the flag unset. \<open>eq_by\<close> on \<open>[1, 5]\<close> and \<open>[2, 6]\<close> returns \<open>false\<close>
  at the first pair and leaves both engines usable: the \<open>next()\<close> after it returns 5 and
  6. \<open>find\<close> returns the 2 it finds with \<open>#consumed\<close> unset, and the \<open>next()\<close> after it
  returns 3.
\<close>
theorem terminal_operations_consume_counterexample:
  "map_option (\<lambda>(r, e). (r, consumed e, fst (iter_next script_pull e)))
     (iter_all script_pull 4 (\<lambda>x. True) (new_Iter (of_array [Some (1::int), Some 2, Some 3]))) =
     Some (Inr True, False, Inr None)
   \<and> map_option (\<lambda>(r, e). (r, consumed e, fst (iter_next script_pull e)))
     (iter_any script_pull 4 (\<lambda>x. False) (new_Iter (of_array [Some (1::int), Some 2, Some 3]))) =
     Some (Inr False, False, Inr None)
   \<and> map_option (\<lambda>(r, e). (r, consumed e, fst (iter_next script_pull e)))
     (iter_last script_pull 5 (new_Iter (of_array [Some (1::int), Some 2, Some 3]))) =
     Some (Inr (Some 3), False, Inr None)
   \<and> map_option (\<lambda>(r, e). (r, consumed e, fst (iter_next script_pull e)))
     (iter_position script_pull 4 (\<lambda>x. x = Some 1)
        (new_Iter (of_array [Some (1::int), Some 2, Some 3]))) =
     Some (Inr (Some 0), False, Inr (Some 2))
   \<and> map_option (\<lambda>(r, e). (r, consumed e, fst (iter_next script_pull e)))
     (iter_reduce script_pull 4 (\<lambda>a b. b)
        (snd (iter_next script_pull (new_Iter (of_array ([] :: int option list)))))) =
     Some (Inr None, False, Inr None)
   \<and> map_option (\<lambda>(r, this, other). (r, consumed this, consumed other,
                   fst (iter_next script_pull this), fst (iter_next script_pull other)))
     (iter_eq_by script_pull script_pull 4
        (new_Iter (of_array [Some (1::int), Some 5])) (new_Iter (of_array [Some (2::int), Some 6]))
        (=)) =
     Some (Inr False, False, False, Inr (Some 5), Inr (Some 6))
   \<and> map_option (\<lambda>(r, e). (r, consumed e, fst (iter_next script_pull e)))
     (iter_find script_pull 4 (\<lambda>x. x = Some 2)
        (new_Iter (of_array [Some (1::int), Some 2, Some 3]))) =
     Some (Inr (Some 2), False, Inr (Some 3))"
  by (simp add: iter_all_def iter_any_def iter_last_def iter_position_def iter_reduce_def
      iter_eq_by_def iter_find_def iter_filter_def filter_pull_def filter_round_def
      new_Iter_def of_array_def iter_next_def next_unguarded_def eval_nat_numeral)

end
